theory Spec2Isabelle
  imports Complex_Main
begin

section \<open>Python values, errors and strings\<close>

text \<open>
  The embedding follows \<^verbatim>\<open>vhsDecodeGUI/vhsDecodeGUI.py\<close>. Python integers are \<open>int\<close>,
  strings are \<open>string\<close> (the characters of the decoder's output are taken to be ASCII),
  an exception is a value of \<open>py_error\<close>.
\<close>

datatype py_error = TypeError | ValueError | OverflowError | AttributeError

datatype pyval = PyInt int | PyStr string | PyNone

definition is_digit :: "char \<Rightarrow> bool" where
  "is_digit c = (let n = (of_char c :: nat) in 48 \<le> n \<and> n \<le> 57)"

definition digit_val :: "char \<Rightarrow> nat" where
  "digit_val c = of_char c - 48"

text \<open>\<^verbatim>\<open>int(ds)\<close> for a string of decimal digits.\<close>

definition int_of_digits :: "string \<Rightarrow> int" where
  "int_of_digits ds = int (foldl (\<lambda>n c. 10 * n + digit_val c) 0 ds)"

text \<open>\<^verbatim>\<open>s.startswith(p)\<close> and \<^verbatim>\<open>p in s\<close>.\<close>

fun startswith :: "string \<Rightarrow> string \<Rightarrow> bool" where
  "startswith s [] = True"
| "startswith [] (p # ps) = False"
| "startswith (c # cs) (p # ps) = (c = p \<and> startswith cs ps)"

fun contains :: "string \<Rightarrow> string \<Rightarrow> bool" where
  "contains p [] = (p = [])"
| "contains p (c # cs) = (startswith (c # cs) p \<or> contains p cs)"

text \<open>The whitespace that \<^verbatim>\<open>str.strip()\<close> and \<^verbatim>\<open>int()\<close> skip (ASCII part).\<close>

definition is_space :: "char \<Rightarrow> bool" where
  "is_space c = (let n = (of_char c :: nat) in (9 \<le> n \<and> n \<le> 13) \<or> (28 \<le> n \<and> n \<le> 32))"

definition strip :: "string \<Rightarrow> string" where
  "strip s = rev (dropWhile is_space (rev (dropWhile is_space s)))"

text \<open>
  \<^verbatim>\<open>int(s)\<close> on a string: surrounding whitespace, an optional sign, then decimal digits in
  which single underscores may separate digits; anything else raises \<^verbatim>\<open>ValueError\<close>.
\<close>

fun int_literal :: "string \<Rightarrow> bool" where
  "int_literal [] = False"
| "int_literal [c] = is_digit c"
| "int_literal (c # d # r) =
     (is_digit c \<and> (if d = CHR ''_'' then int_literal r else int_literal (d # r)))"

definition py_int_str :: "string \<Rightarrow> py_error + int" where
  "py_int_str s =
     (let t = strip s;
          neg = (t \<noteq> [] \<and> hd t = CHR ''-'');
          body = (if t \<noteq> [] \<and> (hd t = CHR ''-'' \<or> hd t = CHR ''+'') then tl t else t)
      in if int_literal body
         then Inr ((if neg then - 1 else 1) * int_of_digits (filter (\<lambda>c. c \<noteq> CHR ''_'') body))
         else Inl ValueError)"

fun py_int :: "pyval \<Rightarrow> py_error + int" where
  "py_int (PyInt n) = Inr n"
| "py_int (PyStr s) = py_int_str s"
| "py_int PyNone = Inl TypeError"

text \<open>\<^verbatim>\<open>f"{n:02d}"\<close>: decimal digits, zero-padded to a width of at least two.\<close>

fun digits_of :: "nat \<Rightarrow> string" where
  "digits_of n =
     (if n < 10 then [char_of (48 + n)]
      else digits_of (n div 10) @ [char_of (48 + n mod 10)])"

definition fmt02d :: "int \<Rightarrow> string" where
  "fmt02d n =
     (if n < 0 then CHR ''-'' # digits_of (nat (- n))
      else (let d = digits_of (nat n) in if length d < 2 then CHR ''0'' # d else d))"

section \<open>Binary64 floating point\<close>

text \<open>
  A finite Python \<^verbatim>\<open>float\<close> is represented by its exact rational value. \<open>fl\<close> rounds a
  rational to the nearest binary64 number, ties to even (53 significant bits); the
  values that occur in the timecode conversion are zero or lie in the normal range.
  Converting an \<^verbatim>\<open>int\<close> to \<^verbatim>\<open>float\<close> raises \<^verbatim>\<open>OverflowError\<close> when the rounded value
  leaves the binary64 range.
\<close>

definition round_half_even :: "rat \<Rightarrow> int" where
  "round_half_even x =
     (let f = \<lfloor>x\<rfloor>; d = x - of_int f
      in if d < 1 / 2 then f else if 1 / 2 < d then f + 1 else if even f then f else f + 1)"

definition pow2 :: "int \<Rightarrow> rat" where
  "pow2 e = (if 0 \<le> e then 2 ^ nat e else 1 / 2 ^ nat (- e))"

fun bitlen :: "nat \<Rightarrow> nat" where
  "bitlen n = (if n = 0 then 0 else Suc (bitlen (n div 2)))"

text \<open>\<open>ilog2 x\<close> is \<open>\<lfloor>log\<^sub>2 x\<rfloor>\<close> for a positive rational \<open>x\<close>.\<close>

definition ilog2 :: "rat \<Rightarrow> int" where
  "ilog2 x =
     (let (p, q) = quotient_of x;
          e = int (bitlen (nat p)) - int (bitlen (nat q))
      in if pow2 e \<le> x then e else e - 1)"

definition fl :: "rat \<Rightarrow> rat" where
  "fl x =
     (if x = 0 then 0
      else (let a = \<bar>x\<bar>; e = ilog2 a - 52; m = round_half_even (a / pow2 e)
            in sgn x * of_int m * pow2 e))"

definition float_of_int :: "int \<Rightarrow> py_error + rat" where
  "float_of_int n =
     (let r = fl (of_int n) in if 2 ^ 1024 \<le> \<bar>r\<bar> then Inl OverflowError else Inr r)"

text \<open>\<^verbatim>\<open>int(x)\<close> on a float truncates towards zero; C's \<^verbatim>\<open>fmod\<close> is exact.\<close>

definition trunc :: "rat \<Rightarrow> int" where
  "trunc x = (if 0 \<le> x then \<lfloor>x\<rfloor> else \<lceil>x\<rceil>)"

definition fmod :: "rat \<Rightarrow> rat \<Rightarrow> rat" where
  "fmod x w = x - w * of_int (trunc (x / w))"

text \<open>
  CPython's \<^verbatim>\<open>float.__mod__\<close> and \<^verbatim>\<open>float.__floordiv__\<close> for a non-zero divisor \<open>w\<close>
  (the source divides by the literals 25.0, 60 and 3600 only).
\<close>

definition float_rem :: "rat \<Rightarrow> rat \<Rightarrow> rat" where
  "float_rem x w =
     (let m = fmod x w
      in if m \<noteq> 0 \<and> ((w < 0) \<noteq> (m < 0)) then fl (m + w) else m)"

definition float_floor_div :: "rat \<Rightarrow> rat \<Rightarrow> rat" where
  "float_floor_div x w =
     (let m = fmod x w;
          d0 = fl (fl (x - m) / w);
          d = (if m \<noteq> 0 \<and> ((w < 0) \<noteq> (m < 0)) then fl (d0 - 1) else d0)
      in if d \<noteq> 0
         then (let f = of_int \<lfloor>d\<rfloor> in if 1 / 2 < fl (d - f) then fl (f + 1) else f)
         else 0)"

section \<open>Timecode converter\<close>

definition FPS :: rat where
  "FPS = 25"

definition convert_frame_to_timecode :: "pyval \<Rightarrow> py_error + string" where
  "convert_frame_to_timecode v =
     (case py_int v of
        Inl e \<Rightarrow> (if e = TypeError \<or> e = ValueError then Inr ''00:00:00.00'' else Inl e)
      | Inr frame_number \<Rightarrow>
          (case float_of_int frame_number of
             Inl e \<Rightarrow> Inl e
           | Inr x \<Rightarrow>
               (let total_seconds = fl (x / FPS);
                    frames = float_rem x FPS;
                    seconds = trunc (float_rem total_seconds 60);
                    minutes = trunc (float_rem (float_floor_div total_seconds 60) 60);
                    hours = trunc (float_floor_div total_seconds 3600)
                in Inr (fmt02d hours @ '':'' @ fmt02d minutes @ '':'' @ fmt02d seconds
                        @ ''.'' @ fmt02d (trunc frames)))))"

section \<open>Line patterns\<close>

definition DROPPED_FIELD_PATTERN :: string where
  "DROPPED_FIELD_PATTERN = ''dropping field''"

definition TRACK_SKIP_PATTERN :: string where
  "TRACK_SKIP_PATTERN = ''skipped a track''"

text \<open>
  \<^verbatim>\<open>FRAME_PATTERN = re.compile(r"File Frame (\d+): VHS")\<close>. \<open>FRAME_PATTERN_match\<close> is a
  match anchored at the start of the string, \<open>FRAME_PATTERN_search\<close> the leftmost match
  anywhere; both return group 1. The digit run is greedy and a colon is no digit, so
  the longest run of digits is the only candidate.
\<close>

definition FRAME_PATTERN_match :: "string \<Rightarrow> string option" where
  "FRAME_PATTERN_match s =
     (if startswith s ''File Frame '' then
        (let r = drop 11 s; ds = takeWhile is_digit r; rest = dropWhile is_digit r
         in if ds \<noteq> [] \<and> startswith rest '': VHS'' then Some ds else None)
      else None)"

fun FRAME_PATTERN_search :: "string \<Rightarrow> string option" where
  "FRAME_PATTERN_search [] = None"
| "FRAME_PATTERN_search (c # cs) =
     (case FRAME_PATTERN_match (c # cs) of
        Some g \<Rightarrow> Some g
      | None \<Rightarrow> FRAME_PATTERN_search cs)"

section \<open>Application state\<close>

text \<open>
  The fields of \<^verbatim>\<open>VhsDecodeApp\<close> that the decode task reads or writes. The dashboard
  variables \<^verbatim>\<open>current_frame\<close>, \<^verbatim>\<open>dropped_field_count\<close> and \<^verbatim>\<open>track_skip_count\<close> hold the
  decimal text of an integer and are kept as that integer; \<^verbatim>\<open>decode_fps\<close> is kept as the
  number before it is formatted; wall-clock readings of \<^verbatim>\<open>time.time()\<close> are reals and
  are passed to each operation in the order the operation reads the clock. The texts of
  the status label and of the fixed log messages are constructors. \<open>snapshots\<close> is a
  history of the completed runs of \<^verbatim>\<open>_update_gui_status\<close>.
\<close>

datatype button_state = normal | disabled

datatype status_text =
    NoText
  | AlreadyInProgress
  | InvalidInputFile
  | NoActiveProcess
  | ErrorText string
  | CompletedSuccessfully
  | CancelledByUser
  | FinishedWithErrorCode int

datatype log_entry =
    StartBanner
  | OutputLine string
  | CancelRequest
  | DecodingFailed
  | DecodingComplete
  | DecodingCompleteNoFrames
  | DecodingCancelled "int option"
  | NonZeroExit int

datatype fps_text = Fps real | FinalAvg real

record proc =
  returncode :: "int option"
  sigterm_sent :: nat

record snapshot =
  snap_time :: real
  snap_frame :: int
  snap_dropped :: int
  snap_skipped :: int

record app =
  current_frame :: int
  timecode :: string
  decode_fps :: fps_text
  dropped_field_count :: int
  track_skip_count :: int
  decoding_in_progress :: bool
  process :: "proc option"
  start_time :: real
  last_frame :: int
  last_time :: real
  last_gui_update_time :: real
  frame_buffer :: int
  dropped_field_buffer :: int
  track_skip_buffer :: int
  start_button :: button_state
  cancel_button :: button_state
  status_message :: status_text
  log_lines :: "log_entry list"
  snapshots :: "snapshot list"

text \<open>The state that \<^verbatim>\<open>__init__\<close> builds; \<open>t0\<close> is its reading of the clock.\<close>

definition init_app :: "real \<Rightarrow> app" where
  "init_app t0 =
     \<lparr> current_frame = 0, timecode = ''00:00:00.00'', decode_fps = Fps 0,
       dropped_field_count = 0, track_skip_count = 0,
       decoding_in_progress = False, process = None,
       start_time = 0, last_frame = 0, last_time = 0, last_gui_update_time = t0,
       frame_buffer = 0, dropped_field_buffer = 0, track_skip_buffer = 0,
       start_button = normal, cancel_button = disabled,
       status_message = NoText, log_lines = [], snapshots = [] \<rparr>"

section \<open>Telemetry: \<^verbatim>\<open>_update_gui_status\<close> and \<^verbatim>\<open>_process_output_line\<close>\<close>

text \<open>
  A handler runs as a Tk callback: when it raises, the assignments made so far stay and
  the rest of the handler is skipped. Each handler returns the state it leaves and the
  exception it raised, if any.
\<close>

definition update_gui_status :: "real \<Rightarrow> int \<Rightarrow> app \<Rightarrow> app \<times> py_error option" where
  "update_gui_status current_time n s =
     (let s1 = s\<lparr>current_frame := n\<rparr>
      in case convert_frame_to_timecode (PyInt n) of
           Inl e \<Rightarrow> (s1, Some e)
         | Inr tc \<Rightarrow>
             (let s2 = s1\<lparr>timecode := tc,
                          dropped_field_count := dropped_field_count s + dropped_field_buffer s,
                          dropped_field_buffer := 0,
                          track_skip_count := track_skip_count s + track_skip_buffer s,
                          track_skip_buffer := 0\<rparr>;
                  frame_diff = n - last_frame s;
                  time_diff = current_time - last_time s;
                  s3 = (if 0 < time_diff
                        then s2\<lparr>decode_fps := Fps (of_int frame_diff / time_diff)\<rparr>
                        else s2)
              in (s3\<lparr>last_frame := n, last_time := current_time,
                       last_gui_update_time := current_time,
                       snapshots := snapshots s @
                         [\<lparr>snap_time = current_time, snap_frame = n,
                           snap_dropped = dropped_field_count s + dropped_field_buffer s,
                           snap_skipped = track_skip_count s + track_skip_buffer s\<rparr>]\<rparr>,
                  None)))"

text \<open>
  \<open>t_check\<close> is the clock reading of the throttle test, \<open>t_update\<close> the later reading
  inside \<^verbatim>\<open>_update_gui_status\<close>.
\<close>

definition process_output_line :: "string \<Rightarrow> real \<Rightarrow> real \<Rightarrow> app \<Rightarrow> app \<times> py_error option" where
  "process_output_line line t_check t_update s =
     (if line = [] then (s, None)
      else
        (let (s1, frame_found) =
               (case FRAME_PATTERN_search line of
                  Some g \<Rightarrow> (s\<lparr>frame_buffer := int_of_digits g\<rparr>, True)
                | None \<Rightarrow>
                    if contains DROPPED_FIELD_PATTERN line
                    then (s\<lparr>dropped_field_buffer := dropped_field_buffer s + 1\<rparr>, False)
                    else if contains TRACK_SKIP_PATTERN line
                    then (s\<lparr>track_skip_buffer := track_skip_buffer s + 1\<rparr>, False)
                    else (s\<lparr>log_lines := log_lines s @ [OutputLine line]\<rparr>, False))
         in if frame_found \<and> 5 \<le> t_check - last_gui_update_time s1
            then update_gui_status t_update (frame_buffer s1) s1
            else (s1, None)))"

section \<open>Process supervision\<close>

text \<open>
  \<^verbatim>\<open>_start_decoding\<close>: \<open>path_ok\<close> says that an input file is selected and exists, \<open>now\<close>
  is the clock reading.
\<close>

definition start_decoding :: "bool \<Rightarrow> real \<Rightarrow> app \<Rightarrow> app" where
  "start_decoding path_ok now s =
     (if decoding_in_progress s then s\<lparr>status_message := AlreadyInProgress\<rparr>
      else if \<not> path_ok then s\<lparr>status_message := InvalidInputFile\<rparr>
      else s\<lparr>log_lines := [StartBanner],
              current_frame := 0, timecode := ''00:00:00.00'', decode_fps := Fps 0,
              dropped_field_count := 0, track_skip_count := 0, status_message := NoText,
              start_time := now, last_frame := 0, last_time := now,
              last_gui_update_time := now,
              frame_buffer := 0, dropped_field_buffer := 0, track_skip_buffer := 0,
              decoding_in_progress := True,
              start_button := disabled, cancel_button := normal\<rparr>)"

text \<open>\<^verbatim>\<open>subprocess.Popen\<close> succeeded: the handle is stored, the child runs.\<close>

definition popen :: "app \<Rightarrow> app" where
  "popen s = s\<lparr>process := Some \<lparr>returncode = None, sigterm_sent = 0\<rparr>\<rparr>"

text \<open>\<^verbatim>\<open>process.wait()\<close> returned \<open>rc\<close>.\<close>

definition wait :: "int \<Rightarrow> app \<Rightarrow> app" where
  "wait rc s = s\<lparr>process := map_option (\<lambda>p. p\<lparr>returncode := Some rc\<rparr>) (process s)\<rparr>"

text \<open>\<^verbatim>\<open>Popen.terminate()\<close> signals the child unless its exit status is already known.\<close>

definition terminate :: "proc \<Rightarrow> proc" where
  "terminate p = (if returncode p = None then p\<lparr>sigterm_sent := sigterm_sent p + 1\<rparr> else p)"

definition cancel_decoding :: "app \<Rightarrow> app" where
  "cancel_decoding s =
     (case process s of
        Some p \<Rightarrow>
          if decoding_in_progress s
          then s\<lparr>log_lines := log_lines s @ [CancelRequest],
                  process := Some (terminate p),
                  cancel_button := disabled\<rparr>
          else s\<lparr>status_message := NoActiveProcess\<rparr>
      | None \<Rightarrow> s\<lparr>status_message := NoActiveProcess\<rparr>)"

text \<open>
  The handler is bound to the cancel button (\<^verbatim>\<open>command=self._cancel_decoding\<close>); Tk
  invokes the command of a button only while the button is not disabled.
\<close>

definition click_cancel :: "app \<Rightarrow> app" where
  "click_cancel s = (if cancel_button s = normal then cancel_decoding s else s)"

text \<open>
  \<^verbatim>\<open>_finalize_decoding(return_code, error_message)\<close>; \<open>t_check\<close>, \<open>t_update\<close> and
  \<open>t_total\<close> are its clock readings, in order. \<open>report_outcome\<close> is the body of the
  handler after its first statement (the final flush of the buffers).
\<close>

definition report_outcome :: "int \<Rightarrow> string option \<Rightarrow> real \<Rightarrow> app \<Rightarrow> app \<times> py_error option" where
  "report_outcome return_code error_message t_total s1 =
     (let s2 = s1\<lparr>decoding_in_progress := False,
                  start_button := normal, cancel_button := disabled\<rparr>
      in if error_message \<noteq> None \<and> error_message \<noteq> Some []
         then (s2\<lparr>status_message := ErrorText (the error_message),
                  log_lines := log_lines s2 @ [DecodingFailed]\<rparr>, None)
         else if return_code = 0
         then (let total_time = t_total - start_time s2;
                   total_frames = current_frame s2;
                   s3 = (if 0 < total_time \<and> 0 < total_frames
                         then s2\<lparr>decode_fps := FinalAvg (of_int total_frames / total_time),
                                 log_lines := log_lines s2 @ [DecodingComplete]\<rparr>
                         else s2\<lparr>log_lines := log_lines s2 @ [DecodingCompleteNoFrames]\<rparr>)
               in (s3\<lparr>status_message := CompletedSuccessfully\<rparr>, None))
         else (case process s2 of
                 None \<Rightarrow> (s2, Some AttributeError)
               | Some p \<Rightarrow>
                   if returncode p \<in> {Some (- 2), Some (- 9), Some 143}
                   then (s2\<lparr>status_message := CancelledByUser,
                            log_lines := log_lines s2 @ [DecodingCancelled (returncode p)]\<rparr>,
                         None)
                   else (s2\<lparr>status_message := FinishedWithErrorCode return_code,
                            log_lines := log_lines s2 @ [NonZeroExit return_code]\<rparr>,
                         None)))"

definition finalize_decoding ::
    "int \<Rightarrow> string option \<Rightarrow> real \<Rightarrow> real \<Rightarrow> real \<Rightarrow> app \<Rightarrow> app \<times> py_error option" where
  "finalize_decoding return_code error_message t_check t_update t_total s =
     (let (s1, err) =
            (if 0 < frame_buffer s \<and> 0 < t_check - last_gui_update_time s
             then update_gui_status t_update (frame_buffer s) s
             else (s, None))
      in case err of
           Some e \<Rightarrow> (s1, Some e)
         | None \<Rightarrow> report_outcome return_code error_message t_total s1)"

text \<open>
  The worker thread after a successful spawn: each line of output is stripped and
  handed to \<^verbatim>\<open>_process_output_line\<close>, an exception of a callback does not stop the
  later callbacks.
\<close>

fun process_lines :: "(string \<times> real \<times> real) list \<Rightarrow> app \<Rightarrow> app" where
  "process_lines [] s = s"
| "process_lines ((line, t_check, t_update) # rest) s =
     process_lines rest (fst (process_output_line (strip line) t_check t_update s))"

section \<open>Log output: ANSI colours\<close>

text \<open>
  \<^verbatim>\<open>log_output(text)\<close> splits the text with \<^verbatim>\<open>re.split(r'(\x1B\[[\d;]*m)', text)\<close>,
  keeps a list of active tags and inserts every other part, cleaned with
  \<^verbatim>\<open>ANSI_ESCAPE_PATTERN.sub('', part)\<close>, under the active tags; a newline without tags
  ends the line. \<open>log_output\<close> returns the inserted (text, tags) pairs in order.
  \<open>sgr_match\<close> and \<open>ansi_match\<close> give the length of a match of the respective pattern
  at the start of a string; the character classes of each pattern are disjoint, so the
  greedy match is the only one. In \<open>re_split_sgr\<close> and \<open>ansi_sub\<close> the first argument
  counts the characters of the current match that are still to be skipped.
\<close>

definition ESC :: char where
  "ESC = char_of (27 :: nat)"

definition sgr_match :: "string \<Rightarrow> nat option" where
  "sgr_match s =
     (if startswith s [ESC, CHR ''[''] then
        (let body = takeWhile (\<lambda>c. is_digit c \<or> c = CHR '';'') (drop 2 s);
             rest = drop (2 + length body) s
         in if rest \<noteq> [] \<and> hd rest = CHR ''m'' then Some (length body + 3) else None)
      else None)"

fun re_split_sgr :: "nat \<Rightarrow> string \<Rightarrow> string \<Rightarrow> string list" where
  "re_split_sgr k acc [] = [acc]"
| "re_split_sgr (Suc k) acc (c # cs) = re_split_sgr k acc cs"
| "re_split_sgr 0 acc (c # cs) =
     (case sgr_match (c # cs) of
        Some n \<Rightarrow> acc # take n (c # cs) # re_split_sgr (n - 1) [] cs
      | None \<Rightarrow> re_split_sgr 0 (acc @ [c]) cs)"

definition in_range :: "nat \<Rightarrow> nat \<Rightarrow> char \<Rightarrow> bool" where
  "in_range lo hi c = (let n = (of_char c :: nat) in lo \<le> n \<and> n \<le> hi)"

definition ansi_match :: "string \<Rightarrow> nat option" where
  "ansi_match s =
     (if startswith s [ESC, CHR ''[''] then
        (let r = drop 2 s;
             ps = takeWhile (in_range 48 63) r;
             r2 = dropWhile (in_range 48 63) r;
             ins = takeWhile (in_range 32 47) r2;
             r3 = dropWhile (in_range 32 47) r2
         in if r3 \<noteq> [] \<and> in_range 64 126 (hd r3)
            then Some (length ps + length ins + 3) else None)
      else None)"

fun ansi_sub :: "nat \<Rightarrow> string \<Rightarrow> string" where
  "ansi_sub k [] = []"
| "ansi_sub (Suc k) (c # cs) = ansi_sub k cs"
| "ansi_sub 0 (c # cs) =
     (case ansi_match (c # cs) of
        Some n \<Rightarrow> ansi_sub (n - 1) cs
      | None \<Rightarrow> c # ansi_sub 0 cs)"

fun split_semicolon :: "string \<Rightarrow> string \<Rightarrow> string list" where
  "split_semicolon acc [] = [acc]"
| "split_semicolon acc (c # cs) =
     (if c = CHR '';'' then acc # split_semicolon [] cs else split_semicolon (acc @ [c]) cs)"

definition color_codes :: "string list" where
  "color_codes = [''30'', ''31'', ''32'', ''33'', ''34'', ''35'', ''36'', ''37'']"

fun apply_codes :: "string list \<Rightarrow> string list \<Rightarrow> string list" where
  "apply_codes [] current_tags = current_tags"
| "apply_codes (code # codes) current_tags =
     apply_codes codes
       (if code = ''0'' \<or> code = [] then []
        else if code \<in> set color_codes
        then filter (\<lambda>t. t \<notin> set color_codes) current_tags @ [code]
        else current_tags)"

fun insert_parts :: "string list \<Rightarrow> string list \<Rightarrow> (string \<times> string list) list" where
  "insert_parts [] current_tags = []"
| "insert_parts (part # parts) current_tags =
     (if part = [] then insert_parts parts current_tags
      else if startswith part [ESC, CHR ''['']
      then insert_parts parts (apply_codes (split_semicolon [] (butlast (drop 2 part))) current_tags)
      else (let clean_text = ansi_sub 0 part
            in if clean_text \<noteq> [] then (clean_text, current_tags) # insert_parts parts current_tags
               else insert_parts parts current_tags))"

definition log_output :: "string \<Rightarrow> (string \<times> string list) list" where
  "log_output text = insert_parts (re_split_sgr 0 [] text) [] @ [([CHR 0x0A], [])]"

section \<open>Views used to state the properties\<close>

text \<open>
  The branch that \<^verbatim>\<open>_process_output_line\<close> takes for a line, as an event; an empty
  line takes the early return and yields no event.
\<close>

datatype event = FrameProgress int | DroppedField | TrackSkip | PlainLine string

definition classify :: "string \<Rightarrow> event option" where
  "classify line =
     (if line = [] then None
      else (case FRAME_PATTERN_search line of
              Some g \<Rightarrow> Some (FrameProgress (int_of_digits g))
            | None \<Rightarrow>
                if contains DROPPED_FIELD_PATTERN line then Some DroppedField
                else if contains TRACK_SKIP_PATTERN line then Some TrackSkip
                else Some (PlainLine line)))"

text \<open>The frame numbers that a sequence of output lines reports, in order.\<close>

fun frames_of :: "(string \<times> real \<times> real) list \<Rightarrow> int list" where
  "frames_of [] = []"
| "frames_of ((line, t_check, t_update) # rest) =
     (case classify (strip line) of
        Some (FrameProgress n) \<Rightarrow> n # frames_of rest
      | _ \<Rightarrow> frames_of rest)"

text \<open>How many lines of a sequence take the branch of a given event.\<close>

definition count_event :: "event \<Rightarrow> (string \<times> real \<times> real) list \<Rightarrow> int" where
  "count_event ev ls = int (length (filter (\<lambda>(line, t_check, t_update). classify (strip line) = Some ev) ls))"

text \<open>How many lines of a sequence contain a marker.\<close>

definition count_containing :: "string \<Rightarrow> (string \<times> real \<times> real) list \<Rightarrow> int" where
  "count_containing marker ls = int (length (filter (\<lambda>(line, t_check, t_update). contains marker line) ls))"

text \<open>Consecutive time stamps are at least five seconds apart, the first one at least
  five seconds after \<open>l\<close>.\<close>

fun spaced :: "real \<Rightarrow> real list \<Rightarrow> bool" where
  "spaced l [] = True"
| "spaced l (t # ts) = (5 \<le> t - l \<and> spaced t ts)"

text \<open>The snapshots that were added on the way from state \<open>s\<close> to state \<open>s'\<close>.\<close>

definition new_snapshots :: "app \<Rightarrow> app \<Rightarrow> snapshot list" where
  "new_snapshots s s' = drop (length (snapshots s)) (snapshots s')"

text \<open>In every callback the clock does not run backwards between its two readings.\<close>

definition clock_ok :: "(string \<times> real \<times> real) list \<Rightarrow> bool" where
  "clock_ok ls = list_all (\<lambda>(line, t_check, t_update). t_check \<le> t_update) ls"

text \<open>The timecode of frame \<open>n\<close> can be rendered: the conversion raises nothing.\<close>

definition renders :: "int \<Rightarrow> bool" where
  "renders n = (case convert_frame_to_timecode (PyInt n) of Inl e \<Rightarrow> False | Inr tc \<Rightarrow> True)"

section \<open>Basic facts\<close>

lemma fl_zero: "fl 0 = 0"
  by (simp add: fl_def)

lemma trunc_zero: "trunc 0 = 0"
  by (simp add: trunc_def)

lemma fmod_zero: "fmod 0 w = 0"
  by (simp add: fmod_def trunc_zero)

lemma fmt02d_zero: "fmt02d 0 = ''00''"
  by code_simp

lemma convert_zero: "convert_frame_to_timecode (PyInt 0) = Inr ''00:00:00.00''"
  by (simp add: convert_frame_to_timecode_def float_of_int_def fl_zero float_rem_def
      float_floor_div_def fmod_zero trunc_zero fmt02d_zero)

lemma renders_zero: "renders 0"
  by (simp add: renders_def convert_zero)

lemma update_gui_status_no_error:
  "renders n \<Longrightarrow> snd (update_gui_status t n s) = None"
  by (simp add: renders_def update_gui_status_def Let_def split: sum.splits)

section \<open>Rounding to binary64 is exact on the frame numbers of a tape\<close>

lemma pow2_powi: "pow2 e = 2 powi e"
  by (simp add: pow2_def power_int_def field_simps)

lemma pow2_pos: "0 < pow2 e"
  by (simp add: pow2_powi)

lemma pow2_add: "pow2 (a + b) = pow2 a * pow2 b"
  by (simp add: pow2_powi power_int_add)

lemma pow2_mono: "a \<le> b \<Longrightarrow> pow2 a \<le> pow2 b"
  by (simp add: pow2_powi power_int_increasing)

lemma pow2_less_cancel: "pow2 a < pow2 b \<Longrightarrow> a < b"
  using pow2_mono [of b a] by (cases "a < b") auto

lemma bitlen_bounds: "0 < n \<Longrightarrow> 2 ^ (bitlen n - 1) \<le> n \<and> n < 2 ^ bitlen n"
proof (induction n rule: bitlen.induct)
  case (1 n)
  show ?case
  proof (cases "n div 2 = 0")
    case True
    with "1.prems" have "n = 1" by (simp add: div_eq_0_iff) 
    then show ?thesis by simp
  next
    case False
    then have ih: "2 ^ (bitlen (n div 2) - 1) \<le> n div 2 \<and> n div 2 < 2 ^ bitlen (n div 2)"
      using "1.IH" "1.prems" by simp
    have pos: "0 < bitlen (n div 2)" using False by simp
    have b: "bitlen n = Suc (bitlen (n div 2))" using "1.prems" by simp
    from ih have "2 * 2 ^ (bitlen (n div 2) - 1) \<le> n" by linarith
    moreover have "2 * 2 ^ (bitlen (n div 2) - 1) = (2::nat) ^ bitlen (n div 2)"
      using pos by (cases "bitlen (n div 2)") simp_all
    moreover from ih have "n < 2 * 2 ^ bitlen (n div 2)" by linarith
    ultimately show ?thesis by (simp add: b)
  qed
qed

lemma round_half_even_of_int: "round_half_even (of_int k) = k"
  by (simp add: round_half_even_def)

lemma round_half_even_error: "\<bar>of_int (round_half_even x) - x\<bar> \<le> 1 / 2"
proof -
  have "of_int \<lfloor>x\<rfloor> \<le> x" "x < of_int \<lfloor>x\<rfloor> + 1" by linarith+
  then show ?thesis
    by (auto simp: round_half_even_def Let_def abs_le_iff)
qed


lemma ilog2_le:
  assumes "0 < x"
  shows "pow2 (ilog2 x) \<le> x"
proof -
  obtain p q where pq: "quotient_of x = (p, q)" by (cases "quotient_of x")
  have q: "0 < q" using pq by (rule quotient_of_denom_pos)
  have x: "x = of_int p / of_int q" using pq by (rule quotient_of_div)
  have p: "0 < p" using assms q x by (simp add: zero_less_divide_iff)
  define bp where "bp = bitlen (nat p)"
  define bq where "bq = bitlen (nat q)"
  have bp: "2 ^ (bp - 1) \<le> nat p" and bq: "nat q < 2 ^ bq"
    using bitlen_bounds [of "nat p"] bitlen_bounds [of "nat q"] p q
    by (simp_all add: bp_def bq_def)
  have bp_pos: "0 < bp" using p by (simp add: bp_def)
  have il: "ilog2 x = (if pow2 (int bp - int bq) \<le> x then int bp - int bq else int bp - int bq - 1)"
    by (simp add: ilog2_def pq bp_def bq_def Let_def)
  show ?thesis
  proof (cases "pow2 (int bp - int bq) \<le> x")
    case True
    then show ?thesis by (simp add: il)
  next
    case False
    have e: "int bp - int bq - 1 = int (bp - 1) + (- int bq)"
      using bp_pos by simp
    have "pow2 (int bp - int bq - 1) = 2 ^ (bp - 1) / 2 ^ bq"
      unfolding e pow2_add by (simp add: pow2_def field_simps)
    also have "\<dots> \<le> of_int p / of_int q"
    proof -
      have 1: "(2::rat) ^ (bp - 1) \<le> of_int p"
      proof -
        have "int (2 ^ (bp - 1)) \<le> p" using bp p by linarith
        then have "(of_int (int (2 ^ (bp - 1))) :: rat) \<le> of_int p"
          by (simp only: of_int_le_iff)
        then show ?thesis by simp
      qed
      have 2: "(of_int q :: rat) \<le> 2 ^ bq"
      proof -
        have "q \<le> int (2 ^ bq)" using bq q by linarith
        then have "(of_int q :: rat) \<le> of_int (int (2 ^ bq))"
          by (simp only: of_int_le_iff)
        then show ?thesis by simp
      qed
      have 3: "(0::rat) < of_int q" using q by simp
      have 4: "(0::rat) \<le> of_int p" using p by simp
      show ?thesis
        using 1 2 3 4 by (intro frac_le)
    qed
    finally have "pow2 (int bp - int bq - 1) \<le> of_int p / of_int q" .
    then have "pow2 (int bp - int bq - 1) \<le> x" by (simp only: x [symmetric])
    then show ?thesis using False by (simp only: il if_False)
  qed
qed

lemma ilog2_less:
  assumes "0 < x" "x < pow2 b"
  shows "ilog2 x < b"
  using ilog2_le [OF assms(1)] assms(2) pow2_less_cancel [of "ilog2 x" b] by linarith

lemma fl_of_int:
  assumes "\<bar>n\<bar> < 2 ^ 53"
  shows "fl (of_int n) = of_int n"
proof (cases "n = 0")
  case True
  then show ?thesis by (simp add: fl_def)
next
  case False
  define a :: rat where "a = \<bar>of_int n\<bar>"
  have a_pos: "0 < a" using False by (simp add: a_def)
  have a_int: "a = of_int \<bar>n\<bar>" by (simp add: a_def)
  have "a < 2 ^ 53"
  proof -
    have "(of_int \<bar>n\<bar> :: rat) < of_int (2 ^ 53)" using assms by (simp only: of_int_less_iff)
    then show ?thesis by (simp add: a_int)
  qed
  then have "a < pow2 53" by (simp add: pow2_def)
  then have il: "ilog2 a < 53" using a_pos by (rule ilog2_less [rotated])
  define k where "k = nat (52 - ilog2 a)"
  have e: "ilog2 a - 52 = - int k" using il by (simp add: k_def)
  have p: "pow2 (ilog2 a - 52) = 1 / 2 ^ k"
    unfolding e by (simp add: pow2_def)
  have "a / pow2 (ilog2 a - 52) = a * 2 ^ k"
    unfolding p by simp
  also have "\<dots> = of_int (\<bar>n\<bar> * 2 ^ k)"
    by (simp add: a_int)
  finally have "a / pow2 (ilog2 a - 52) = of_int (\<bar>n\<bar> * 2 ^ k)" .
  then have r: "round_half_even (a / pow2 (ilog2 a - 52)) = \<bar>n\<bar> * 2 ^ k"
    by (simp only: round_half_even_of_int)
  have "fl (of_int n) =
      sgn (of_int n) * of_int (round_half_even (a / pow2 (ilog2 a - 52))) * pow2 (ilog2 a - 52)"
    using False by (simp add: fl_def Let_def a_def)
  also have "\<dots> = sgn (of_int n) * of_int (\<bar>n\<bar> * 2 ^ k) * (1 / 2 ^ k)"
    by (subst r, subst p, rule refl)
  also have "\<dots> = sgn (of_int n) * of_int \<bar>n\<bar>" by simp
  also have "\<dots> = of_int n"
    by (simp add: sgn_if)
  finally show ?thesis .
qed

lemma float_of_int_small:
  assumes "\<bar>n\<bar> < 2 ^ 53"
  shows "float_of_int n = Inr (of_int n)"
proof -
  have "\<bar>of_int n :: rat\<bar> < 2 ^ 1024"
  proof -
    have "\<bar>n\<bar> < 2 ^ 1024" using assms by (rule less_trans) simp
    then have "(of_int \<bar>n\<bar> :: rat) < of_int (2 ^ 1024)" by (simp only: of_int_less_iff)
    then show ?thesis by simp
  qed
  then show ?thesis by (simp add: float_of_int_def fl_of_int [OF assms] Let_def)
qed


lemma fl_error_49:
  assumes "0 < x" "x < 2 ^ 49"
  shows "\<bar>fl x - x\<bar> \<le> 1 / 32"
proof -
  have "x < pow2 49" using assms(2) by (simp add: pow2_def)
  then have il: "ilog2 x < 49" using assms(1) by (rule ilog2_less [rotated])
  define e where "e = ilog2 x - 52"
  define m where "m = round_half_even (x / pow2 e)"
  have e: "e \<le> - 4" using il by (simp add: e_def)
  have pe: "pow2 e \<le> 1 / 16"
    using pow2_mono [OF e] by (simp add: pow2_def)
  have f: "fl x = of_int m * pow2 e"
    using assms(1) by (simp add: fl_def Let_def e_def m_def)
  have "fl x - x = pow2 e * (of_int m - x / pow2 e)"
    using pow2_pos [of e] by (simp add: f field_simps)
  then have "\<bar>fl x - x\<bar> = pow2 e * \<bar>of_int m - x / pow2 e\<bar>"
    using pow2_pos [of e] by (simp add: abs_mult)
  also have "\<dots> \<le> pow2 e * (1 / 2)"
    using round_half_even_error [of "x / pow2 e"] pow2_pos [of e]
    by (intro mult_left_mono) (simp_all add: m_def)
  also have "\<dots> \<le> (1 / 16) * (1 / 2)"
    using pe by (intro mult_right_mono) simp_all
  finally show ?thesis by simp
qed

lemma floor_div_rat:
  fixes y :: rat
  assumes "0 < c"
  shows "\<lfloor>y / of_int c\<rfloor> = \<lfloor>y\<rfloor> div c"
proof -
  have "\<lfloor>y / of_int c\<rfloor> = \<lfloor>(of_rat (y / of_int c)) :: real\<rfloor>"
    by (simp only: of_rat_floor)
  also have "\<dots> = \<lfloor>(of_rat y :: real) / of_int c\<rfloor>"
    by (simp add: of_rat_divide)
  also have "\<dots> = \<lfloor>of_rat y :: real\<rfloor> div c"
    using assms by (intro floor_divide_real_eq_div) simp
  also have "\<dots> = \<lfloor>y\<rfloor> div c"
    by (simp only: of_rat_floor)
  finally show ?thesis .
qed

lemma mult_div_le_int: "0 < (c::int) \<Longrightarrow> c * (a div c) \<le> a"
  using pos_mod_sign [of c a] mult_div_mod_eq [of c a] by linarith

lemma fmod_nonneg:
  assumes "0 \<le> y" "0 < c"
  shows "fmod y (of_int c) = y - of_int (c * (\<lfloor>y\<rfloor> div c))"
proof -
  have "0 \<le> y / of_int c" using assms by simp
  then have "trunc (y / of_int c) = \<lfloor>y\<rfloor> div c"
    using assms(2) by (simp add: trunc_def floor_div_rat)
  then show ?thesis by (simp add: fmod_def)
qed

lemma fmod_nonneg_bounds:
  assumes "0 \<le> y" "0 < c"
  shows "0 \<le> fmod y (of_int c)" and "\<lfloor>fmod y (of_int c)\<rfloor> = \<lfloor>y\<rfloor> mod c"
proof -
  have f: "fmod y (of_int c) = y - of_int (c * (\<lfloor>y\<rfloor> div c))"
    using assms by (rule fmod_nonneg)
  have fl: "\<lfloor>fmod y (of_int c)\<rfloor> = \<lfloor>y\<rfloor> - c * (\<lfloor>y\<rfloor> div c)"
    unfolding f by (simp only: floor_diff_of_int)
  show "\<lfloor>fmod y (of_int c)\<rfloor> = \<lfloor>y\<rfloor> mod c"
    unfolding fl by (simp add: minus_mult_div_eq_mod)
  have "c * (\<lfloor>y\<rfloor> div c) \<le> \<lfloor>y\<rfloor>"
    using assms(2) by (rule mult_div_le_int)
  then have "(of_int (c * (\<lfloor>y\<rfloor> div c)) :: rat) \<le> of_int \<lfloor>y\<rfloor>"
    by (simp only: of_int_le_iff)
  also have "\<dots> \<le> y" by simp
  finally show "0 \<le> fmod y (of_int c)" by (simp add: f)
qed

lemma float_rem_nonneg:
  assumes "0 \<le> y" "0 < c"
  shows "trunc (float_rem y (of_int c)) = \<lfloor>y\<rfloor> mod c"
proof -
  have nn: "0 \<le> fmod y (of_int c)" using assms by (rule fmod_nonneg_bounds(1))
  have "float_rem y (of_int c) = fmod y (of_int c)"
    using nn assms(2) by (simp add: float_rem_def Let_def)
  then show ?thesis
    using nn fmod_nonneg_bounds(2) [OF assms] by (simp add: trunc_def)
qed

lemma float_floor_div_nonneg:
  assumes "0 \<le> y" "0 < c" "\<lfloor>y\<rfloor> < 2 ^ 53"
  shows "float_floor_div y (of_int c) = of_int (\<lfloor>y\<rfloor> div c)"
proof -
  define q where "q = \<lfloor>y\<rfloor> div c"
  have k0: "0 \<le> \<lfloor>y\<rfloor>" using assms(1) by simp
  have q0: "0 \<le> q" using k0 assms(2) by (simp add: q_def pos_imp_zdiv_nonneg_iff)
  have cq: "c * q \<le> \<lfloor>y\<rfloor>" using assms(2) by (simp add: q_def mult_div_le_int)
  have qk: "q \<le> \<lfloor>y\<rfloor>"
  proof -
    have "1 * q \<le> c * q" using assms(2) q0 by (intro mult_right_mono) simp_all
    then show ?thesis using cq by simp
  qed
  have nn: "0 \<le> fmod y (of_int c)" using assms(1,2) by (rule fmod_nonneg_bounds(1))
  have m: "y - fmod y (of_int c) = of_int (c * q)"
    using fmod_nonneg [OF assms(1,2)] by (simp add: q_def)
  have cq0: "0 \<le> c * q" using assms(2) q0 by simp
  have "\<bar>c * q\<bar> < 2 ^ 53" using cq0 cq assms(3) by linarith
  then have 1: "fl (of_int (c * q)) = of_int (c * q)"
    by (rule fl_of_int)
  have 2: "(of_int (c * q) :: rat) / of_int c = of_int q"
    using assms(2) by simp
  have "\<bar>q\<bar> < 2 ^ 53" using q0 qk assms(3) by linarith
  then have 3: "fl (of_int q) = of_int q"
    by (rule fl_of_int)
  have d0: "fl (fl (y - fmod y (of_int c)) / of_int c) = of_int q"
    by (simp only: m 1 2 3)
  have "float_floor_div y (of_int c) =
      (if (of_int q :: rat) \<noteq> 0
       then (let f = of_int \<lfloor>of_int q :: rat\<rfloor> :: rat
             in if 1 / 2 < fl (of_int q - f) then fl (f + 1) else f)
       else 0)"
    using nn assms(2) unfolding float_floor_div_def Let_def d0 by simp
  also have "\<dots> = of_int q"
    by (simp add: fl_zero)
  finally show ?thesis by (simp add: q_def)
qed

lemma floor_fl_div25:
  assumes "0 \<le> n" "n < 2 ^ 53"
  shows "0 \<le> fl (of_int n / 25)" and "\<lfloor>fl (of_int n / 25)\<rfloor> = n div 25"
proof -
  define k where "k = n div 25"
  define r where "r = n mod 25"
  have n: "n = 25 * k + r" by (simp add: k_def r_def)
  have r: "0 \<le> r" "r < 25" by (simp_all add: r_def)
  have k0: "0 \<le> k" using assms(1) by (simp add: k_def)
  have kn: "k \<le> n" using assms(1) k0 r n by linarith
  have x: "(of_int n :: rat) / 25 = of_int k + of_int r / 25"
    by (simp add: n)
  have goal: "of_int k \<le> fl (of_int n / 25) \<and> fl (of_int n / 25) < of_int k + 1"
  proof (cases "r = 0")
    case True
    have "fl (of_int n / 25) = fl (of_int k)" by (simp add: x True)
    also have "\<dots> = of_int k"
    proof -
      have "\<bar>k\<bar> < 2 ^ 53" using k0 kn assms(2) by linarith
      then show ?thesis by (rule fl_of_int)
    qed
    finally show ?thesis by simp
  next
    case False
    then have r1: "1 \<le> r" "r \<le> 24" using r by simp_all
    have lo: "(of_int k :: rat) + 1 / 25 \<le> of_int n / 25"
    proof -
      have "(of_int 1 :: rat) \<le> of_int r" using r1(1) by (simp only: of_int_le_iff)
      then show ?thesis by (simp add: x)
    qed
    have hi: "(of_int n :: rat) / 25 \<le> of_int k + 24 / 25"
    proof -
      have "(of_int r :: rat) \<le> of_int 24" using r1(2) by (simp only: of_int_le_iff)
      then show ?thesis by (simp add: x)
    qed
    have pos: "(0::rat) < of_int n / 25"
    proof -
      have "(0::rat) \<le> of_int k" using k0 by simp
      then show ?thesis using lo by linarith
    qed
    have lt: "(of_int n :: rat) / 25 < 2 ^ 49"
    proof -
      have "n < 25 * 2 ^ 49" using assms(2) by simp
      then have "(of_int n :: rat) < of_int (25 * 2 ^ 49)" by (simp only: of_int_less_iff)
      then show ?thesis by simp
    qed
    have "\<bar>fl (of_int n / 25) - of_int n / 25\<bar> \<le> 1 / 32"
      using pos lt by (rule fl_error_49)
    then have "fl (of_int n / 25) - of_int n / 25 \<le> 1 / 32"
      and "of_int n / 25 - fl (of_int n / 25) \<le> 1 / 32"
      by (simp_all only: abs_le_iff minus_diff_eq)
    then show ?thesis using lo hi by linarith
  qed
  then show "\<lfloor>fl (of_int n / 25)\<rfloor> = n div 25"
    unfolding k_def [symmetric] by (simp add: floor_unique)
  have "(0::rat) \<le> of_int k" using k0 by simp
  then show "0 \<le> fl (of_int n / 25)" using goal by linarith
qed

lemma convert_small:
  assumes "0 \<le> n" "n < 2 ^ 53"
  shows "convert_frame_to_timecode (PyInt n) =
           Inr (fmt02d (n div 90000) @ '':'' @ fmt02d (n div 1500 mod 60) @ '':'' @
                fmt02d (n div 25 mod 60) @ ''.'' @ fmt02d (n mod 25))"
proof -
  have abs: "\<bar>n\<bar> < 2 ^ 53" using assms by simp
  define y where "y = fl (of_int n / 25)"
  have y0: "0 \<le> y" and fy: "\<lfloor>y\<rfloor> = n div 25"
    using floor_fl_div25 [OF assms] by (simp_all add: y_def)
  have yb: "\<lfloor>y\<rfloor> < 2 ^ 53" using assms by (simp add: fy)
  have sec: "trunc (float_rem y 60) = n div 25 mod 60"
    using float_rem_nonneg [OF y0, of 60] by (simp add: fy)
  have d60: "float_floor_div y 60 = of_int (n div 1500)"
    using float_floor_div_nonneg [OF y0 _ yb, of 60] by (simp add: fy div_mult2_eq [symmetric])
  have d3600: "float_floor_div y 3600 = of_int (n div 90000)"
    using float_floor_div_nonneg [OF y0 _ yb, of 3600] by (simp add: fy div_mult2_eq [symmetric])
  have min: "trunc (float_rem (of_int (n div 1500)) 60) = n div 1500 mod 60"
    using float_rem_nonneg [of "of_int (n div 1500)" 60] assms(1)
    by (simp add: pos_imp_zdiv_nonneg_iff)
  have hrs: "trunc (of_int (n div 90000) :: rat) = n div 90000"
    using assms(1) by (simp add: trunc_def pos_imp_zdiv_nonneg_iff)
  have frm: "trunc (float_rem (of_int n) 25) = n mod 25"
    using float_rem_nonneg [of "of_int n" 25] assms(1) by simp
  show ?thesis
    by (simp add: convert_frame_to_timecode_def float_of_int_small [OF abs] FPS_def Let_def
        y_def [symmetric] sec d60 d3600 min hrs frm)
qed

lemma renders_small: "0 \<le> n \<Longrightarrow> n < 2 ^ 53 \<Longrightarrow> renders n"
  by (simp add: renders_def convert_small)

section \<open>Steps of the telemetry\<close>

lemma update_gui_status_fields:
  "frame_buffer (fst (update_gui_status t n s)) = frame_buffer s"
  "current_frame (fst (update_gui_status t n s)) = n"
  "decoding_in_progress (fst (update_gui_status t n s)) = decoding_in_progress s"
  "process (fst (update_gui_status t n s)) = process s"
  "start_time (fst (update_gui_status t n s)) = start_time s"
  by (simp_all add: update_gui_status_def Let_def split: sum.splits)

lemma update_gui_status_ok:
  assumes "renders n"
  shows "snapshots (fst (update_gui_status t n s)) = snapshots s @
            [\<lparr>snap_time = t, snap_frame = n,
              snap_dropped = dropped_field_count s + dropped_field_buffer s,
              snap_skipped = track_skip_count s + track_skip_buffer s\<rparr>]"
    and "last_gui_update_time (fst (update_gui_status t n s)) = t"
    and "dropped_field_count (fst (update_gui_status t n s)) = dropped_field_count s + dropped_field_buffer s"
    and "track_skip_count (fst (update_gui_status t n s)) = track_skip_count s + track_skip_buffer s"
    and "dropped_field_buffer (fst (update_gui_status t n s)) = 0"
    and "track_skip_buffer (fst (update_gui_status t n s)) = 0"
  using assms
  by (simp_all add: renders_def update_gui_status_def Let_def split: sum.splits)

lemma update_gui_status_fail:
  assumes "\<not> renders n"
  shows "fst (update_gui_status t n s) = s\<lparr>current_frame := n\<rparr>"
  using assms
  by (simp add: renders_def update_gui_status_def Let_def split: sum.splits)

lemma pol_empty: "process_output_line [] tc tu s = (s, None)"
  by (simp add: process_output_line_def)

lemma pol_frame:
  assumes "line \<noteq> []" "FRAME_PATTERN_search line = Some g"
  shows "process_output_line line tc tu s =
          (if 5 \<le> tc - last_gui_update_time s
           then update_gui_status tu (int_of_digits g) (s\<lparr>frame_buffer := int_of_digits g\<rparr>)
           else (s\<lparr>frame_buffer := int_of_digits g\<rparr>, None))"
  using assms by (simp add: process_output_line_def)

lemma pol_dropped:
  assumes "line \<noteq> []" "FRAME_PATTERN_search line = None" "contains DROPPED_FIELD_PATTERN line"
  shows "process_output_line line tc tu s =
          (s\<lparr>dropped_field_buffer := dropped_field_buffer s + 1\<rparr>, None)"
  using assms by (simp add: process_output_line_def)

lemma pol_skip:
  assumes "line \<noteq> []" "FRAME_PATTERN_search line = None"
    "\<not> contains DROPPED_FIELD_PATTERN line" "contains TRACK_SKIP_PATTERN line"
  shows "process_output_line line tc tu s =
          (s\<lparr>track_skip_buffer := track_skip_buffer s + 1\<rparr>, None)"
  using assms by (simp add: process_output_line_def)

lemma pol_plain:
  assumes "line \<noteq> []" "FRAME_PATTERN_search line = None"
    "\<not> contains DROPPED_FIELD_PATTERN line" "\<not> contains TRACK_SKIP_PATTERN line"
  shows "process_output_line line tc tu s =
          (s\<lparr>log_lines := log_lines s @ [OutputLine line]\<rparr>, None)"
  using assms by (simp add: process_output_line_def)

lemma process_output_line_classify:
  "process_output_line line tc tu s =
     (case classify line of
        None \<Rightarrow> (s, None)
      | Some (FrameProgress n) \<Rightarrow>
          (if 5 \<le> tc - last_gui_update_time s
           then update_gui_status tu n (s\<lparr>frame_buffer := n\<rparr>)
           else (s\<lparr>frame_buffer := n\<rparr>, None))
      | Some DroppedField \<Rightarrow> (s\<lparr>dropped_field_buffer := dropped_field_buffer s + 1\<rparr>, None)
      | Some TrackSkip \<Rightarrow> (s\<lparr>track_skip_buffer := track_skip_buffer s + 1\<rparr>, None)
      | Some (PlainLine l) \<Rightarrow> (s\<lparr>log_lines := log_lines s @ [OutputLine l]\<rparr>, None))"
  by (simp add: classify_def process_output_line_def split: option.splits)

lemma update_gui_status_totals:
  "dropped_field_count (fst (update_gui_status t n s)) + dropped_field_buffer (fst (update_gui_status t n s))
     = dropped_field_count s + dropped_field_buffer s"
  "track_skip_count (fst (update_gui_status t n s)) + track_skip_buffer (fst (update_gui_status t n s))
     = track_skip_count s + track_skip_buffer s"
  by (cases "renders n"; simp add: update_gui_status_ok update_gui_status_fail)+

lemma update_gui_status_mono:
  assumes "0 \<le> dropped_field_buffer s" "0 \<le> track_skip_buffer s"
  shows "dropped_field_count s \<le> dropped_field_count (fst (update_gui_status t n s))"
    and "track_skip_count s \<le> track_skip_count (fst (update_gui_status t n s))"
    and "0 \<le> dropped_field_buffer (fst (update_gui_status t n s))"
    and "0 \<le> track_skip_buffer (fst (update_gui_status t n s))"
  using assms
  by (cases "renders n"; simp add: update_gui_status_ok update_gui_status_fail)+

lemma update_gui_status_snapshots:
  "(snapshots (fst (update_gui_status t n s)) = snapshots s \<and>
    last_gui_update_time (fst (update_gui_status t n s)) = last_gui_update_time s) \<or>
   (\<exists>sn. snapshots (fst (update_gui_status t n s)) = snapshots s @ [sn] \<and> snap_time sn = t \<and>
      snap_frame sn = n \<and> last_gui_update_time (fst (update_gui_status t n s)) = t)"
  by (cases "renders n"; simp add: update_gui_status_ok update_gui_status_fail)

lemma step_totals:
  "dropped_field_count (fst (process_output_line line tc tu s))
     + dropped_field_buffer (fst (process_output_line line tc tu s))
   = dropped_field_count s + dropped_field_buffer s
     + (if classify line = Some DroppedField then 1 else 0)"
  "track_skip_count (fst (process_output_line line tc tu s))
     + track_skip_buffer (fst (process_output_line line tc tu s))
   = track_skip_count s + track_skip_buffer s
     + (if classify line = Some TrackSkip then 1 else 0)"
  using update_gui_status_totals
  by (simp_all add: process_output_line_classify split: option.splits event.splits)

lemma step_mono:
  assumes "0 \<le> dropped_field_buffer s" "0 \<le> track_skip_buffer s"
  shows "dropped_field_count s \<le> dropped_field_count (fst (process_output_line line tc tu s))"
    and "track_skip_count s \<le> track_skip_count (fst (process_output_line line tc tu s))"
    and "0 \<le> dropped_field_buffer (fst (process_output_line line tc tu s))"
    and "0 \<le> track_skip_buffer (fst (process_output_line line tc tu s))"
proof -
  have "dropped_field_count s \<le> dropped_field_count (fst (process_output_line line tc tu s)) \<and>
        track_skip_count s \<le> track_skip_count (fst (process_output_line line tc tu s)) \<and>
        0 \<le> dropped_field_buffer (fst (process_output_line line tc tu s)) \<and>
        0 \<le> track_skip_buffer (fst (process_output_line line tc tu s))"
  proof (cases "classify line")
    case None
    then show ?thesis using assms by (simp add: process_output_line_classify)
  next
    case (Some ev)
    show ?thesis
    proof (cases ev)
      case (FrameProgress n)
      show ?thesis
        using assms update_gui_status_mono [of "s\<lparr>frame_buffer := n\<rparr>" tu n]
        by (simp add: process_output_line_classify Some FrameProgress)
    qed (use assms in \<open>simp_all add: process_output_line_classify Some\<close>)
  qed
  then show "dropped_field_count s \<le> dropped_field_count (fst (process_output_line line tc tu s))"
    and "track_skip_count s \<le> track_skip_count (fst (process_output_line line tc tu s))"
    and "0 \<le> dropped_field_buffer (fst (process_output_line line tc tu s))"
    and "0 \<le> track_skip_buffer (fst (process_output_line line tc tu s))"
    by simp_all
qed

lemma step_frame:
  "frame_buffer (fst (process_output_line line tc tu s)) =
     (case classify line of Some (FrameProgress n) \<Rightarrow> n | _ \<Rightarrow> frame_buffer s)"
  "current_frame (fst (process_output_line line tc tu s)) = current_frame s \<or>
     classify line = Some (FrameProgress (current_frame (fst (process_output_line line tc tu s))))"
  by (simp_all add: process_output_line_classify update_gui_status_fields
      split: option.splits event.splits)

lemma step_snapshots:
  "(snapshots (fst (process_output_line line tc tu s)) = snapshots s \<and>
    last_gui_update_time (fst (process_output_line line tc tu s)) = last_gui_update_time s) \<or>
   (\<exists>sn n. snapshots (fst (process_output_line line tc tu s)) = snapshots s @ [sn] \<and>
      snap_time sn = tu \<and> snap_frame sn = n \<and> classify line = Some (FrameProgress n) \<and>
      last_gui_update_time (fst (process_output_line line tc tu s)) = tu \<and>
      5 \<le> tc - last_gui_update_time s)"
proof (cases "classify line")
  case None
  then show ?thesis by (simp add: process_output_line_classify)
next
  case (Some ev)
  show ?thesis
  proof (cases ev)
    case (FrameProgress n)
    show ?thesis
      using update_gui_status_snapshots [of tu n "s\<lparr>frame_buffer := n\<rparr>"]
      by (auto simp: process_output_line_classify Some FrameProgress)
  qed (simp_all add: process_output_line_classify Some)
qed


lemma lines_totals:
  "dropped_field_count (process_lines ls s) + dropped_field_buffer (process_lines ls s)
     = dropped_field_count s + dropped_field_buffer s + count_event DroppedField ls \<and>
   track_skip_count (process_lines ls s) + track_skip_buffer (process_lines ls s)
     = track_skip_count s + track_skip_buffer s + count_event TrackSkip ls"
proof (induction ls arbitrary: s)
  case Nil
  show ?case by (simp add: count_event_def)
next
  case (Cons a ls)
  obtain line tc tu where a: "a = (line, tc, tu)" by (cases a)
  show ?case
    using Cons.IH [of "fst (process_output_line (strip line) tc tu s)"]
      step_totals [of "strip line" tc tu s]
    by (simp add: a count_event_def)
qed

lemma lines_mono:
  assumes "0 \<le> dropped_field_buffer s" "0 \<le> track_skip_buffer s"
  shows "dropped_field_count s \<le> dropped_field_count (process_lines ls s) \<and>
         track_skip_count s \<le> track_skip_count (process_lines ls s) \<and>
         0 \<le> dropped_field_buffer (process_lines ls s) \<and>
         0 \<le> track_skip_buffer (process_lines ls s)"
  using assms
proof (induction ls arbitrary: s)
  case Nil
  then show ?case by simp
next
  case (Cons a ls)
  obtain line tc tu where a: "a = (line, tc, tu)" by (cases a)
  let ?s = "fst (process_output_line (strip line) tc tu s)"
  note st = step_mono [OF Cons.prems, of "strip line" tc tu]
  have "dropped_field_count ?s \<le> dropped_field_count (process_lines ls ?s) \<and>
        track_skip_count ?s \<le> track_skip_count (process_lines ls ?s) \<and>
        0 \<le> dropped_field_buffer (process_lines ls ?s) \<and>
        0 \<le> track_skip_buffer (process_lines ls ?s)"
    using st(3,4) by (rule Cons.IH)
  then show ?case using st(1,2) by (simp add: a)
qed

lemma lines_frame:
  assumes "current_frame s \<le> frame_buffer s" "sorted (frame_buffer s # frames_of ls)"
  shows "current_frame s \<le> current_frame (process_lines ls s) \<and>
         current_frame (process_lines ls s) \<le> frame_buffer (process_lines ls s)"
  using assms
proof (induction ls arbitrary: s)
  case Nil
  then show ?case by simp
next
  case (Cons a ls)
  obtain line tc tu where a: "a = (line, tc, tu)" by (cases a)
  let ?s = "fst (process_output_line (strip line) tc tu s)"
  note fb = step_frame(1) [of "strip line" tc tu s]
  note cf = step_frame(2) [of "strip line" tc tu s]
  have 1: "current_frame s \<le> current_frame ?s \<and> current_frame ?s \<le> frame_buffer ?s \<and>
           sorted (frame_buffer ?s # frames_of ls)"
  proof (cases "\<exists>n. classify (strip line) = Some (FrameProgress n)")
    case True
    then obtain n where n: "classify (strip line) = Some (FrameProgress n)" by blast
    have "frame_buffer s \<le> n" and "sorted (n # frames_of ls)"
      using Cons.prems(2) by (simp_all add: a n)
    then show ?thesis using Cons.prems(1) fb cf by (auto simp: n)
  next
    case False
    then have "frames_of (a # ls) = frames_of ls" and "frame_buffer ?s = frame_buffer s"
      and "current_frame ?s = current_frame s"
      using fb cf by (auto simp: a split: option.splits event.splits)
    then show ?thesis using Cons.prems by simp
  qed
  then have "current_frame ?s \<le> current_frame (process_lines ls ?s) \<and>
        current_frame (process_lines ls ?s) \<le> frame_buffer (process_lines ls ?s)"
    by (intro Cons.IH) simp_all
  then show ?case using 1 by (simp add: a)
qed

lemma lines_snapshots:
  assumes "clock_ok ls"
  shows "\<exists>X. snapshots (process_lines ls s) = snapshots s @ X \<and>
             spaced (last_gui_update_time s) (map snap_time X) \<and>
             length X \<le> length (frames_of ls)"
  using assms
proof (induction ls arbitrary: s)
  case Nil
  then show ?case by simp
next
  case (Cons a ls)
  obtain line tc tu where a: "a = (line, tc, tu)" by (cases a)
  let ?s = "fst (process_output_line (strip line) tc tu s)"
  have ck: "tc \<le> tu" and ok: "clock_ok ls"
    using Cons.prems by (simp_all add: clock_ok_def a)
  obtain X where X: "snapshots (process_lines ls ?s) = snapshots ?s @ X"
      "spaced (last_gui_update_time ?s) (map snap_time X)" "length X \<le> length (frames_of ls)"
    using Cons.IH [OF ok, of ?s] by blast
  from step_snapshots [of "strip line" tc tu s]
  show ?case
  proof (elim disjE conjE exE)
    assume "snapshots ?s = snapshots s" "last_gui_update_time ?s = last_gui_update_time s"
    then have "snapshots (process_lines (a # ls) s) = snapshots s @ X"
      "spaced (last_gui_update_time s) (map snap_time X)"
      using X by (simp_all add: a)
    moreover have "length X \<le> length (frames_of (a # ls))"
      using X(3) by (simp add: a split: option.splits event.splits)
    ultimately show ?thesis by blast
  next
    fix sn n
    assume h: "snapshots ?s = snapshots s @ [sn]" "snap_time sn = tu" "snap_frame sn = n"
      "classify (strip line) = Some (FrameProgress n)" "last_gui_update_time ?s = tu"
      "5 \<le> tc - last_gui_update_time s"
    have "snapshots (process_lines (a # ls) s) = snapshots s @ (sn # X)"
      using X(1) h(1) by (simp add: a)
    moreover have "spaced (last_gui_update_time s) (map snap_time (sn # X))"
      using X(2) h(2,5,6) ck by simp
    moreover have "length (sn # X) \<le> length (frames_of (a # ls))"
      using X(3) h(4) by (simp add: a)
    ultimately show ?thesis by blast
  qed
qed

lemma lines_no_snapshot:
  assumes "list_all (\<lambda>(line, tc, tu). tc - last_gui_update_time s < 5) ls"
  shows "snapshots (process_lines ls s) = snapshots s"
  using assms
proof (induction ls arbitrary: s)
  case Nil
  then show ?case by simp
next
  case (Cons a ls)
  obtain line tc tu where a: "a = (line, tc, tu)" by (cases a)
  let ?s = "fst (process_output_line (strip line) tc tu s)"
  have tc: "tc - last_gui_update_time s < 5" using Cons.prems by (simp add: a)
  have same: "snapshots ?s = snapshots s \<and> last_gui_update_time ?s = last_gui_update_time s"
    using step_snapshots [of "strip line" tc tu s] tc by auto
  have "list_all (\<lambda>(line, tc, tu). tc - last_gui_update_time ?s < 5) ls"
    using Cons.prems same by (simp add: a)
  then have "snapshots (process_lines ls ?s) = snapshots ?s" by (rule Cons.IH)
  then show ?case using same by (simp add: a)
qed

lemma lines_at_most_one:
  assumes "clock_ok ls"
    and "list_all (\<lambda>(line, tc, tu). tc < last_gui_update_time s + 10) ls"
  shows "length (snapshots (process_lines ls s)) \<le> length (snapshots s) + 1"
  using assms
proof (induction ls arbitrary: s)
  case Nil
  then show ?case by simp
next
  case (Cons a ls)
  obtain line tc tu where a: "a = (line, tc, tu)" by (cases a)
  let ?s = "fst (process_output_line (strip line) tc tu s)"
  have ck: "tc \<le> tu" and ok: "clock_ok ls"
    using Cons.prems(1) by (simp_all add: clock_ok_def a)
  have bound: "list_all (\<lambda>(line, tc, tu). tc < last_gui_update_time s + 10) ls"
    using Cons.prems(2) by (simp add: a)
  from step_snapshots [of "strip line" tc tu s]
  show ?case
  proof (elim disjE conjE exE)
    assume same: "snapshots ?s = snapshots s" "last_gui_update_time ?s = last_gui_update_time s"
    have "length (snapshots (process_lines ls ?s)) \<le> length (snapshots ?s) + 1"
      using ok bound same(2) by (intro Cons.IH) simp_all
    then show ?thesis using same(1) by (simp add: a)
  next
    fix sn n
    assume h: "snapshots ?s = snapshots s @ [sn]" "last_gui_update_time ?s = tu"
      "5 \<le> tc - last_gui_update_time s"
    have "list_all (\<lambda>(line, tc, tu). tc - last_gui_update_time ?s < 5) ls"
    proof -
      have "\<And>t::real. t < last_gui_update_time s + 10 \<Longrightarrow> t - tu < 5"
        using h(3) ck by linarith
      then show ?thesis
        using bound by (auto simp: h(2) list_all_iff)
    qed
    then have "snapshots (process_lines ls ?s) = snapshots ?s" by (rule lines_no_snapshot)
    then show ?thesis using h(1) by (simp add: a)
  qed
qed

lemma report_outcome_fields:
  "dropped_field_count (fst (report_outcome rc msg t3 s)) = dropped_field_count s"
  "track_skip_count (fst (report_outcome rc msg t3 s)) = track_skip_count s"
  "current_frame (fst (report_outcome rc msg t3 s)) = current_frame s"
  "snapshots (fst (report_outcome rc msg t3 s)) = snapshots s"
  by (simp_all add: report_outcome_def Let_def split: option.splits)

lemma finalize_decoding_fields:
  "dropped_field_count (fst (finalize_decoding rc msg t1 t2 t3 s)) =
     (if 0 < frame_buffer s \<and> 0 < t1 - last_gui_update_time s
      then dropped_field_count (fst (update_gui_status t2 (frame_buffer s) s))
      else dropped_field_count s)"
  "track_skip_count (fst (finalize_decoding rc msg t1 t2 t3 s)) =
     (if 0 < frame_buffer s \<and> 0 < t1 - last_gui_update_time s
      then track_skip_count (fst (update_gui_status t2 (frame_buffer s) s))
      else track_skip_count s)"
  "current_frame (fst (finalize_decoding rc msg t1 t2 t3 s)) =
     (if 0 < frame_buffer s \<and> 0 < t1 - last_gui_update_time s
      then current_frame (fst (update_gui_status t2 (frame_buffer s) s))
      else current_frame s)"
  "snapshots (fst (finalize_decoding rc msg t1 t2 t3 s)) =
     (if 0 < frame_buffer s \<and> 0 < t1 - last_gui_update_time s
      then snapshots (fst (update_gui_status t2 (frame_buffer s) s))
      else snapshots s)"
  by (cases "update_gui_status t2 (frame_buffer s) s";
      simp add: finalize_decoding_def report_outcome_fields split: option.splits)+


lemma spaced_lower: "spaced l ts \<Longrightarrow> list_all (\<lambda>t. l + 5 \<le> t) ts"
proof (induction ts arbitrary: l)
  case Nil
  show ?case by simp
next
  case (Cons t ts)
  then have "list_all (\<lambda>u. t + 5 \<le> u) ts" and "l + 5 \<le> t" by simp_all
  then show ?case by (auto simp: list_all_iff)
qed

lemma new_snapshots_append: "snapshots s' = snapshots s @ X \<Longrightarrow> new_snapshots s s' = X"
  by (simp add: new_snapshots_def)

lemma started_fields:
  assumes "\<not> decoding_in_progress s0"
  shows "current_frame (popen (start_decoding True t0 s0)) = 0"
    and "dropped_field_count (popen (start_decoding True t0 s0)) = 0"
    and "track_skip_count (popen (start_decoding True t0 s0)) = 0"
    and "frame_buffer (popen (start_decoding True t0 s0)) = 0"
    and "dropped_field_buffer (popen (start_decoding True t0 s0)) = 0"
    and "track_skip_buffer (popen (start_decoding True t0 s0)) = 0"
    and "last_gui_update_time (popen (start_decoding True t0 s0)) = t0"
    and "snapshots (popen (start_decoding True t0 s0)) = snapshots s0"
  using assms by (simp_all add: popen_def start_decoding_def)

lemma init_idle: "\<not> decoding_in_progress (init_app t)" "snapshots (init_app t) = []"
  by (simp_all add: init_app_def)

lemma classify_examples:
  "classify (strip ''File Frame 1: VHS'') = Some (FrameProgress 1)"
  "classify (strip ''File Frame 5: VHS'') = Some (FrameProgress 5)"
  "classify (strip ''File Frame 10: VHS'') = Some (FrameProgress 10)"
  "classify (strip ''File Frame 20: VHS'') = Some (FrameProgress 20)"
  "classify (strip ''dropping field'') = Some DroppedField"
  "classify (strip ''skipped a track'') = Some TrackSkip"
  "classify (strip ''File Frame 1: VHS dropping field'') = Some (FrameProgress 1)"
  by code_simp+

lemma contains_examples:
  "contains DROPPED_FIELD_PATTERN ''dropping field''"
  "contains DROPPED_FIELD_PATTERN ''File Frame 1: VHS dropping field''"
  by code_simp+

lemma renders_examples: "renders 1" "renders 5" "renders 10" "renders 20"
  by (simp_all add: renders_small)

lemma finalize_decoding_completed:
  assumes "renders (frame_buffer s)"
  shows "snd (finalize_decoding 0 None t1 t2 t3 s) = None"
proof -
  obtain s1 where upd: "update_gui_status t2 (frame_buffer s) s = (s1, None)"
    using update_gui_status_no_error [OF assms, of t2 s]
    by (cases "update_gui_status t2 (frame_buffer s) s") simp
  show ?thesis
    using upd by (simp add: finalize_decoding_def report_outcome_def Let_def)
qed

lemma lines_new_snapshots:
  assumes "clock_ok ls"
  shows "snapshots (process_lines ls s) = snapshots s @ new_snapshots s (process_lines ls s)"
    and "spaced (last_gui_update_time s) (map snap_time (new_snapshots s (process_lines ls s)))"
    and "length (new_snapshots s (process_lines ls s)) \<le> length (frames_of ls)"
proof -
  obtain X where X: "snapshots (process_lines ls s) = snapshots s @ X"
      "spaced (last_gui_update_time s) (map snap_time X)" "length X \<le> length (frames_of ls)"
    using lines_snapshots [OF assms, of s] by blast
  have n: "new_snapshots s (process_lines ls s) = X"
    using X(1) by (rule new_snapshots_append)
  show "snapshots (process_lines ls s) = snapshots s @ new_snapshots s (process_lines ls s)"
    and "spaced (last_gui_update_time s) (map snap_time (new_snapshots s (process_lines ls s)))"
    and "length (new_snapshots s (process_lines ls s)) \<le> length (frames_of ls)"
    using X by (simp_all only: n)
qed

lemma finalize_new_snapshots:
  "new_snapshots s (fst (finalize_decoding rc msg t1 t2 t3 s)) =
     (if 0 < frame_buffer s \<and> 0 < t1 - last_gui_update_time s \<and> renders (frame_buffer s)
      then [\<lparr>snap_time = t2, snap_frame = frame_buffer s,
             snap_dropped = dropped_field_count s + dropped_field_buffer s,
             snap_skipped = track_skip_count s + track_skip_buffer s\<rparr>]
      else [])"
  by (cases "renders (frame_buffer s)")
     (simp_all add: new_snapshots_def finalize_decoding_fields update_gui_status_ok
        update_gui_status_fail)

lemma throttled_run_example:
  fixes s ls
  defines "s \<equiv> popen (start_decoding True 100 (init_app 0))"
    and "ls \<equiv> [(''File Frame 10: VHS'', 105::real, 105::real), (''File Frame 20: VHS'', 107, 107)]"
  shows "snapshots (process_lines ls s) =
           [\<lparr>snap_time = 105, snap_frame = 10, snap_dropped = 0, snap_skipped = 0\<rparr>]"
    and "frame_buffer (process_lines ls s) = 20"
    and "last_gui_update_time (process_lines ls s) = 105"
    and "snapshots s = []" and "last_gui_update_time s = 100"
    and "clock_ok ls" and "frames_of ls = [10, 20]"
  by (simp_all add: s_def ls_def process_output_line_classify classify_examples
      update_gui_status_fields update_gui_status_ok renders_examples started_fields init_idle
      clock_ok_def)

section \<open>Outcome of a terminated session\<close>

text \<open>C1 (counterexample). A session that nobody cancelled and whose process ends with
  exit status 143 is reported as cancelled by the user.\<close>

theorem finalize_cancelled_without_request:
  "(let s = wait 143 (popen (start_decoding True 100 (init_app 0)));
        s' = fst (finalize_decoding 143 None 101 101 101 s)
    in cancel_button s = normal \<and> CancelRequest \<notin> set (log_lines s)
       \<and> map_option sigterm_sent (process s) = Some 0
       \<and> status_message s' = CancelledByUser)"
  by (simp add: finalize_decoding_def report_outcome_def wait_def popen_def
      start_decoding_def init_app_def)

text \<open>C1 (amended). When the process ends with a non-zero exit status and no launch
  error is reported, the session is reported as cancelled exactly when the exit status
  is one of -2, -9 and 143, whether or not a cancellation was requested; every other
  non-zero exit status is reported as a failure that carries the exit status.\<close>

theorem finalize_outcome_by_exit_code:
  assumes "renders (frame_buffer s)" and "rc \<noteq> 0" and "process s = Some p"
  shows "snd (finalize_decoding rc None t1 t2 t3 s) = None \<and>
         status_message (fst (finalize_decoding rc None t1 t2 t3 s)) =
           (if returncode p \<in> {Some (- 2), Some (- 9), Some 143}
            then CancelledByUser else FinishedWithErrorCode rc)"
proof -
  obtain s1 where upd: "update_gui_status t2 (frame_buffer s) s = (s1, None)"
    using update_gui_status_no_error [OF assms(1), of t2 s]
    by (cases "update_gui_status t2 (frame_buffer s) s") simp
  have proc: "process s1 = Some p"
    using upd assms(3)
    by (auto simp: update_gui_status_def Let_def split: sum.splits if_splits)
  show ?thesis
    using upd proc assms(2,3)
    by (simp add: finalize_decoding_def report_outcome_def Let_def)
qed

theorem finalize_outcome_by_exit_code_witness:
  "(let s = wait 1 (popen (start_decoding True 100 (init_app 0)));
        r = finalize_decoding 1 None 101 101 101 s
    in renders (frame_buffer s) \<and> (1::int) \<noteq> 0
       \<and> process s = Some \<lparr>returncode = Some 1, sigterm_sent = 0\<rparr>
       \<and> snd r = None \<and> status_message (fst r) = FinishedWithErrorCode 1)"
proof -
  let ?s = "wait 1 (popen (start_decoding True 100 (init_app 0)))"
  have fb: "frame_buffer ?s = 0"
    by (simp add: wait_def popen_def start_decoding_def init_app_def)
  have r: "renders (frame_buffer ?s)"
    by (simp add: fb renders_zero)
  have p: "process ?s = Some \<lparr>returncode = Some 1, sigterm_sent = 0\<rparr>"
    by (simp add: wait_def popen_def start_decoding_def init_app_def)
  show ?thesis
    using finalize_outcome_by_exit_code [OF r _ p, of 1 101 101 101] r p
    by (simp add: Let_def)
qed

section \<open>Cancellation\<close>

lemma report_outcome_flags:
  assumes "snd (report_outcome rc msg t3 s) = None"
  shows "\<not> decoding_in_progress (fst (report_outcome rc msg t3 s)) \<and>
         cancel_button (fst (report_outcome rc msg t3 s)) = disabled"
  using assms
  by (simp add: report_outcome_def Let_def split: option.splits if_splits)

lemma finalize_decoding_flags:
  assumes "snd (finalize_decoding rc msg t1 t2 t3 s) = None"
  shows "\<not> decoding_in_progress (fst (finalize_decoding rc msg t1 t2 t3 s)) \<and>
         cancel_button (fst (finalize_decoding rc msg t1 t2 t3 s)) = disabled"
proof -
  obtain s1 err where u:
    "(if 0 < frame_buffer s \<and> 0 < t1 - last_gui_update_time s
      then update_gui_status t2 (frame_buffer s) s else (s, None)) = (s1, err)"
    by (meson surj_pair)
  show ?thesis
  proof (cases err)
    case None
    then have eq: "finalize_decoding rc msg t1 t2 t3 s = report_outcome rc msg t3 s1"
      using u by (simp add: finalize_decoding_def)
    show ?thesis
      using assms report_outcome_flags [of rc msg t3 s1] by (simp add: eq)
  next
    case (Some e)
    then have "snd (finalize_decoding rc msg t1 t2 t3 s) = Some e"
      using u by (simp add: finalize_decoding_def)
    with assms show ?thesis by simp
  qed
qed

lemma click_cancel_disabled: "cancel_button s = disabled \<Longrightarrow> click_cancel s = s"
  by (simp add: click_cancel_def)

lemma click_cancel_idem: "click_cancel (click_cancel s) = click_cancel s"
  by (cases "process s")
     (auto simp: click_cancel_def cancel_decoding_def split: option.splits)

text \<open>C9. Pressing cancel on a finished session does nothing at all: the button is
  disabled by \<^verbatim>\<open>_finalize_decoding\<close>, so no signal is sent and neither the session flags
  nor the exit status change. A second press while a cancellation is pending does
  nothing either, because the first press disabled the button. The handler itself, run
  on a session that is not in progress, sends no signal and leaves the process handle
  and the session flag as they are.\<close>

theorem cancel_noop_when_terminal_or_pending:
  "(snd (finalize_decoding rc msg t1 t2 t3 s) = None \<longrightarrow>
      click_cancel (fst (finalize_decoding rc msg t1 t2 t3 s))
        = fst (finalize_decoding rc msg t1 t2 t3 s))
   \<and> click_cancel (click_cancel s) = click_cancel s
   \<and> (\<not> decoding_in_progress s \<longrightarrow>
        process (cancel_decoding s) = process s \<and>
        decoding_in_progress (cancel_decoding s) = decoding_in_progress s)"
proof (intro conjI impI)
  assume "snd (finalize_decoding rc msg t1 t2 t3 s) = None"
  then have "cancel_button (fst (finalize_decoding rc msg t1 t2 t3 s)) = disabled"
    by (simp add: finalize_decoding_flags)
  then show "click_cancel (fst (finalize_decoding rc msg t1 t2 t3 s))
      = fst (finalize_decoding rc msg t1 t2 t3 s)"
    by (rule click_cancel_disabled)
next
  show "click_cancel (click_cancel s) = click_cancel s"
    by (rule click_cancel_idem)
next
  assume "\<not> decoding_in_progress s"
  then show "process (cancel_decoding s) = process s"
    by (simp add: cancel_decoding_def split: option.splits)
next
  assume "\<not> decoding_in_progress s"
  then show "decoding_in_progress (cancel_decoding s) = decoding_in_progress s"
    by (simp add: cancel_decoding_def split: option.splits)
qed

text \<open>A running session is cancelled once (one signal), the second press changes
  nothing; after the process has ended with status 143 a further press changes nothing
  and the handler leaves the exit status alone.\<close>

theorem cancel_noop_when_terminal_or_pending_witness:
  "(let run = popen (start_decoding True 100 (init_app 0));
        pending = click_cancel run;
        fin = finalize_decoding 143 None 101 101 101 (wait 143 pending)
    in map_option sigterm_sent (process pending) = Some 1
       \<and> click_cancel pending = pending
       \<and> snd fin = None
       \<and> click_cancel (fst fin) = fst fin
       \<and> \<not> decoding_in_progress (fst fin)
       \<and> process (cancel_decoding (fst fin)) = process (fst fin)
       \<and> map_option returncode (process (cancel_decoding (fst fin))) = Some (Some 143))"
proof -
  let ?run = "popen (start_decoding True 100 (init_app 0))"
  let ?pending = "click_cancel ?run"
  let ?fin = "finalize_decoding 143 None 101 101 101 (wait 143 ?pending)"
  have sent: "map_option sigterm_sent (process ?pending) = Some 1"
    by (simp add: click_cancel_def cancel_decoding_def terminate_def popen_def
        start_decoding_def init_app_def)
  have again: "click_cancel ?pending = ?pending"
    using cancel_noop_when_terminal_or_pending [of 0 None 0 0 0 ?run] by simp
  have ok: "snd ?fin = None"
    by (simp add: finalize_decoding_def report_outcome_def wait_def click_cancel_def
        cancel_decoding_def terminate_def popen_def start_decoding_def init_app_def)
  have idle: "\<not> decoding_in_progress (fst ?fin)"
    using ok by (simp add: finalize_decoding_flags)
  have rc: "map_option returncode (process (fst ?fin)) = Some (Some 143)"
    by (simp add: finalize_decoding_def report_outcome_def wait_def click_cancel_def
        cancel_decoding_def terminate_def popen_def start_decoding_def init_app_def)
  have noop: "click_cancel (fst ?fin) = fst ?fin"
    using cancel_noop_when_terminal_or_pending
            [of 143 None 101 101 101 "wait 143 ?pending"] ok by simp
  have handler: "process (cancel_decoding (fst ?fin)) = process (fst ?fin)"
    using cancel_noop_when_terminal_or_pending [of 0 None 0 0 0 "fst ?fin"] idle by simp
  show ?thesis
    using sent again ok idle rc noop handler
    by (simp add: Let_def)
qed

section \<open>Cumulative totals\<close>

text \<open>C2 (counterexample). A run whose only line contains the dropped-field marker
  ends with a dropped-field total of 0, because no frame was seen and the final flush is
  skipped; and a line that matches the frame pattern and also contains the marker is
  counted as a frame only.\<close>

theorem totals_not_flushed_or_not_counted:
  "(let s = popen (start_decoding True 100 (init_app 0));
        a = [(''dropping field'', 101, 101)];
        b = [(''File Frame 1: VHS dropping field'', 101, 101)]
    in dropped_field_count (fst (finalize_decoding 0 None 102 102 102 (process_lines a s)))
         \<noteq> count_containing DROPPED_FIELD_PATTERN a
       \<and> dropped_field_count (fst (finalize_decoding 0 None 102 102 102 (process_lines b s)))
         \<noteq> count_containing DROPPED_FIELD_PATTERN b)"
proof -
  let ?s = "popen (start_decoding True 100 (init_app 0))"
  let ?a = "[(''dropping field'', 101::real, 101::real)]"
  let ?b = "[(''File Frame 1: VHS dropping field'', 101::real, 101::real)]"
  have ca: "count_containing DROPPED_FIELD_PATTERN ?a = 1"
    and cb: "count_containing DROPPED_FIELD_PATTERN ?b = 1"
    by (simp_all add: count_containing_def contains_examples del: contains.simps)
  have da: "dropped_field_count (fst (finalize_decoding 0 None 102 102 102 (process_lines ?a ?s))) = 0"
    by (simp add: finalize_decoding_fields process_output_line_classify classify_examples
        started_fields init_idle)
  have db: "dropped_field_count (fst (finalize_decoding 0 None 102 102 102 (process_lines ?b ?s))) = 0"
    by (simp add: finalize_decoding_fields process_output_line_classify classify_examples
        update_gui_status_ok renders_examples started_fields init_idle)
  show ?thesis
    unfolding Let_def ca cb da db by simp
qed

text \<open>C2 (amended). For a session started by \<^verbatim>\<open>_start_decoding\<close>: if at termination the
  latest frame number is positive, the clock has advanced since the last dashboard
  update and the timecode of that frame can be rendered, then after
  \<^verbatim>\<open>_finalize_decoding\<close> the dropped-field and track-skip totals equal the number of
  lines that took the dropped-field branch and the track-skip branch, whenever the
  throttled updates happened.\<close>

theorem totals_after_finalize:
  assumes "\<not> decoding_in_progress s0"
    and "s' = process_lines ls (popen (start_decoding True t0 s0))"
    and "0 < frame_buffer s'" and "last_gui_update_time s' < t_check"
    and "renders (frame_buffer s')"
  shows "dropped_field_count (fst (finalize_decoding rc msg t_check t_update t_total s'))
           = count_event DroppedField ls \<and>
         track_skip_count (fst (finalize_decoding rc msg t_check t_update t_total s'))
           = count_event TrackSkip ls"
  using lines_totals [of ls "popen (start_decoding True t0 s0)"] assms(3,4)
  by (simp add: finalize_decoding_fields update_gui_status_ok [OF assms(5)]
      started_fields [OF assms(1)] assms(2) [symmetric])

theorem totals_after_finalize_witness:
  "(let s0 = init_app 0;
        ls = [(''File Frame 1: VHS'', 101, 101), (''dropping field'', 102, 102),
              (''skipped a track'', 103, 103), (''dropping field'', 104, 104)];
        s' = process_lines ls (popen (start_decoding True 100 s0));
        fin = fst (finalize_decoding 0 None 105 105 105 s')
    in \<not> decoding_in_progress s0 \<and> 0 < frame_buffer s' \<and> last_gui_update_time s' < 105
       \<and> renders (frame_buffer s')
       \<and> dropped_field_count fin = 2 \<and> track_skip_count fin = 1)"
proof -
  let ?ls = "[(''File Frame 1: VHS'', 101::real, 101::real), (''dropping field'', 102, 102),
              (''skipped a track'', 103, 103), (''dropping field'', 104, 104)]"
  let ?s' = "process_lines ?ls (popen (start_decoding True 100 (init_app 0)))"
  have fb: "frame_buffer ?s' = 1" and lt: "last_gui_update_time ?s' = 100"
    by (simp_all add: process_output_line_classify classify_examples started_fields init_idle)
  have cnt: "count_event DroppedField ?ls = 2" "count_event TrackSkip ?ls = 1"
    by (simp_all add: count_event_def classify_examples)
  have r: "renders (frame_buffer ?s')" by (simp only: fb renders_examples)
  show ?thesis
    using totals_after_finalize [where ?s0.0 = "init_app 0" and ls = ?ls and ?t0.0 = 100
        and t_check = 105 and rc = 0 and msg = None and t_update = 105 and t_total = 105,
        OF init_idle(1) refl] fb lt r cnt
    by (simp add: Let_def init_idle del: process_lines.simps)
qed

section \<open>Monotone telemetry\<close>

text \<open>C3 (counterexample). The dashboard shows the latest frame number that the decoder
  reported, not the largest: after an update at frame 10, a later line that reports
  frame 5 makes the published frame go down from 10 to 5.\<close>

theorem published_frame_decreases:
  "(let s = popen (start_decoding True 100 (init_app 0));
        l1 = (''File Frame 10: VHS'', 105, 105);
        l2 = (''File Frame 5: VHS'', 110, 110)
    in current_frame (process_lines [l1] s) = 10 \<and> current_frame (process_lines [l1, l2] s) = 5)"
  by (simp add: Let_def process_output_line_classify classify_examples update_gui_status_fields
      update_gui_status_ok renders_examples started_fields init_idle)

text \<open>C3 (amended). Within one session the published dropped-field and track-skip counts
  never decrease, over any sequence of lines and over the final flush. The published
  frame is the latest frame number reported at the time of the update; it never
  decreases as long as the frame numbers that the decoder reports do not decrease. A
  successful \<^verbatim>\<open>_start_decoding\<close> sets all three values (and the buffers) to 0.\<close>

theorem telemetry_monotone:
  "(0 \<le> dropped_field_buffer s \<and> 0 \<le> track_skip_buffer s \<longrightarrow>
       dropped_field_count s \<le> dropped_field_count (process_lines ls s)
     \<and> track_skip_count s \<le> track_skip_count (process_lines ls s)
     \<and> 0 \<le> dropped_field_buffer (process_lines ls s)
     \<and> 0 \<le> track_skip_buffer (process_lines ls s)
     \<and> dropped_field_count s \<le> dropped_field_count (fst (finalize_decoding rc msg t1 t2 t3 s))
     \<and> track_skip_count s \<le> track_skip_count (fst (finalize_decoding rc msg t1 t2 t3 s)))
   \<and> (current_frame s \<le> frame_buffer s \<and> sorted (frame_buffer s # frames_of ls) \<longrightarrow>
        current_frame s \<le> current_frame (process_lines ls s) \<and>
        current_frame (process_lines ls s) \<le> frame_buffer (process_lines ls s))
   \<and> (current_frame s \<le> frame_buffer s \<longrightarrow>
        current_frame s \<le> current_frame (fst (finalize_decoding rc msg t1 t2 t3 s)))
   \<and> (\<not> decoding_in_progress s \<longrightarrow>
        current_frame (start_decoding True t0 s) = 0 \<and>
        dropped_field_count (start_decoding True t0 s) = 0 \<and>
        track_skip_count (start_decoding True t0 s) = 0 \<and>
        frame_buffer (start_decoding True t0 s) = 0 \<and>
        dropped_field_buffer (start_decoding True t0 s) = 0 \<and>
        track_skip_buffer (start_decoding True t0 s) = 0)"
proof (intro conjI impI)
  assume a: "0 \<le> dropped_field_buffer s \<and> 0 \<le> track_skip_buffer s"
  then have b: "0 \<le> dropped_field_buffer s" "0 \<le> track_skip_buffer s" by simp_all
  note m = lines_mono [OF b, of ls]
  note u = update_gui_status_mono [OF b, of t2 "frame_buffer s"]
  show "dropped_field_count s \<le> dropped_field_count (process_lines ls s)"
    and "track_skip_count s \<le> track_skip_count (process_lines ls s)"
    and "0 \<le> dropped_field_buffer (process_lines ls s)"
    and "0 \<le> track_skip_buffer (process_lines ls s)"
    using m by simp_all
  show "dropped_field_count s \<le> dropped_field_count (fst (finalize_decoding rc msg t1 t2 t3 s))"
    and "track_skip_count s \<le> track_skip_count (fst (finalize_decoding rc msg t1 t2 t3 s))"
    using u by (simp_all add: finalize_decoding_fields)
next
  assume "current_frame s \<le> frame_buffer s \<and> sorted (frame_buffer s # frames_of ls)"
  then show "current_frame s \<le> current_frame (process_lines ls s)"
    and "current_frame (process_lines ls s) \<le> frame_buffer (process_lines ls s)"
    using lines_frame [of s ls] by simp_all
next
  assume "current_frame s \<le> frame_buffer s"
  then show "current_frame s \<le> current_frame (fst (finalize_decoding rc msg t1 t2 t3 s))"
    by (simp add: finalize_decoding_fields update_gui_status_fields)
next
  assume "\<not> decoding_in_progress s"
  then show "current_frame (start_decoding True t0 s) = 0"
    and "dropped_field_count (start_decoding True t0 s) = 0"
    and "track_skip_count (start_decoding True t0 s) = 0"
    and "frame_buffer (start_decoding True t0 s) = 0"
    and "dropped_field_buffer (start_decoding True t0 s) = 0"
    and "track_skip_buffer (start_decoding True t0 s) = 0"
    by (simp_all add: start_decoding_def)
qed

theorem telemetry_monotone_witness:
  "(let old = fst (finalize_decoding 0 None 50 50 50
                (process_lines [(''File Frame 20: VHS'', 10, 10), (''dropping field'', 11, 11)]
                   (popen (start_decoding True 1 (init_app 0)))));
        s = start_decoding True 100 old;
        ls = [(''File Frame 10: VHS'', 105, 105), (''dropping field'', 106, 106),
              (''File Frame 20: VHS'', 110, 110)];
        s' = process_lines ls s
    in current_frame old = 20 \<and> dropped_field_count old = 1 \<and> \<not> decoding_in_progress old
       \<and> current_frame s = 0 \<and> dropped_field_count s = 0 \<and> track_skip_count s = 0
       \<and> 0 \<le> dropped_field_buffer s \<and> 0 \<le> track_skip_buffer s
       \<and> current_frame s \<le> frame_buffer s \<and> sorted (frame_buffer s # frames_of ls)
       \<and> current_frame s \<le> current_frame s' \<and> dropped_field_count s \<le> dropped_field_count s')"
proof -
  let ?run = "process_lines [(''File Frame 20: VHS'', 10, 10), (''dropping field'', 11, 11)]
                   (popen (start_decoding True 1 (init_app 0)))"
  let ?old = "fst (finalize_decoding 0 None 50 50 50 ?run)"
  let ?new = "start_decoding True 100 ?old"
  let ?ls = "[(''File Frame 10: VHS'', 105::real, 105::real), (''dropping field'', 106, 106),
              (''File Frame 20: VHS'', 110, 110)]"
  have run: "frame_buffer ?run = 20" "last_gui_update_time ?run = 10"
      "dropped_field_count ?run = 0" "dropped_field_buffer ?run = 1"
    by (simp_all add: process_output_line_classify classify_examples update_gui_status_fields
        update_gui_status_ok renders_examples started_fields init_idle)
  have old: "current_frame ?old = 20" "dropped_field_count ?old = 1"
    by (simp_all add: finalize_decoding_fields run update_gui_status_fields update_gui_status_ok
        renders_examples del: process_lines.simps)
  have "snd (finalize_decoding 0 None 50 50 50 ?run) = None"
    by (rule finalize_decoding_completed) (simp only: run renders_examples)
  then have idle: "\<not> decoding_in_progress ?old"
    by (simp add: finalize_decoding_flags del: process_lines.simps)
  have fr: "frames_of ?ls = [10, 20]"
    by (simp add: classify_examples)
  have zero: "current_frame ?new = 0" "dropped_field_count ?new = 0" "track_skip_count ?new = 0"
      "frame_buffer ?new = 0" "dropped_field_buffer ?new = 0" "track_skip_buffer ?new = 0"
    using telemetry_monotone [of ?old ?ls 0 None 0 0 0 100] idle
    by (simp_all del: process_lines.simps)
  have mono: "current_frame ?new \<le> current_frame (process_lines ?ls ?new)"
      "dropped_field_count ?new \<le> dropped_field_count (process_lines ?ls ?new)"
    using telemetry_monotone [of ?new ?ls 0 None 0 0 0 0]
    by (simp_all add: zero fr del: process_lines.simps frames_of.simps)
  show ?thesis
    using old idle zero mono
    by (simp add: Let_def fr del: process_lines.simps frames_of.simps)
qed

section \<open>Throttling\<close>

text \<open>C4. Provided the clock does not run backwards between the two readings of a
  callback: the dashboard updates that \<^verbatim>\<open>_process_output_line\<close> triggers are at least five
  seconds apart (the first one at least five seconds after the last update before the
  run), and there are at most as many of them as lines that report a frame, so none
  happens before a frame was seen. \<^verbatim>\<open>_finalize_decoding\<close> adds at most one update, and it
  adds one whenever a positive frame was seen and the clock has advanced by any amount,
  however short the time since the previous update.\<close>

theorem snapshots_throttled:
  "(clock_ok ls \<longrightarrow>
      spaced (last_gui_update_time s) (map snap_time (new_snapshots s (process_lines ls s)))
      \<and> length (new_snapshots s (process_lines ls s)) \<le> length (frames_of ls))
   \<and> length (new_snapshots s (fst (finalize_decoding rc msg t1 t2 t3 s))) \<le> 1
   \<and> (0 < frame_buffer s \<and> last_gui_update_time s < t1 \<and> renders (frame_buffer s) \<longrightarrow>
        map snap_time (new_snapshots s (fst (finalize_decoding rc msg t1 t2 t3 s))) = [t2])"
proof (intro conjI impI)
  assume "clock_ok ls"
  then show "spaced (last_gui_update_time s) (map snap_time (new_snapshots s (process_lines ls s)))"
    and "length (new_snapshots s (process_lines ls s)) \<le> length (frames_of ls)"
    by (rule lines_new_snapshots(2), rule lines_new_snapshots(3))
next
  show "length (new_snapshots s (fst (finalize_decoding rc msg t1 t2 t3 s))) \<le> 1"
    by (simp add: finalize_new_snapshots)
next
  assume "0 < frame_buffer s \<and> last_gui_update_time s < t1 \<and> renders (frame_buffer s)"
  then show "map snap_time (new_snapshots s (fst (finalize_decoding rc msg t1 t2 t3 s))) = [t2]"
    by (simp add: finalize_new_snapshots)
qed

text \<open>Two frame lines two seconds apart give one throttled update (at 105, five seconds
  after the start at 100); the final update follows at 108, three seconds later.\<close>

theorem snapshots_throttled_witness:
  "(let s = popen (start_decoding True 100 (init_app 0));
        ls = [(''File Frame 10: VHS'', 105, 105), (''File Frame 20: VHS'', 107, 107)];
        s' = process_lines ls s
    in clock_ok ls
       \<and> map snap_time (new_snapshots s s') = [105]
       \<and> spaced (last_gui_update_time s) (map snap_time (new_snapshots s s'))
       \<and> 0 < frame_buffer s' \<and> last_gui_update_time s' < 108 \<and> renders (frame_buffer s')
       \<and> map snap_time (new_snapshots s' (fst (finalize_decoding 0 None 108 108 108 s'))) = [108])"
proof -
  let ?s = "popen (start_decoding True 100 (init_app 0))"
  let ?ls = "[(''File Frame 10: VHS'', 105::real, 105::real), (''File Frame 20: VHS'', 107, 107)]"
  let ?s' = "process_lines ?ls ?s"
  note ex = throttled_run_example
  have new: "map snap_time (new_snapshots ?s ?s') = [105]"
    by (simp add: new_snapshots_def ex del: process_lines.simps)
  have sp: "spaced (last_gui_update_time ?s) (map snap_time (new_snapshots ?s ?s'))"
    using snapshots_throttled [of ?ls ?s 0 None 0 0 0] ex(6) by blast
  have hyp: "0 < frame_buffer ?s' \<and> last_gui_update_time ?s' < 108 \<and> renders (frame_buffer ?s')"
    by (simp add: ex renders_examples del: process_lines.simps)
  have fin: "map snap_time (new_snapshots ?s' (fst (finalize_decoding 0 None 108 108 108 ?s'))) = [108]"
    using snapshots_throttled [of ?ls ?s' 0 None 108 108 108] hyp by blast
  show ?thesis
    using ex(6) new sp hyp fin by (simp add: Let_def del: process_lines.simps)
qed

text \<open>C10. \<^verbatim>\<open>_start_decoding\<close> seeds \<^verbatim>\<open>last_gui_update_time\<close> with the launch time \<open>t0\<close>, so
  (the clock not running backwards inside a callback) no throttled update is stamped
  earlier than \<open>t0 + 5\<close>, and a run all of whose lines are checked before \<open>t0 + 10\<close> has
  at most one throttled update.\<close>

theorem first_snapshot_after_interval:
  assumes "\<not> decoding_in_progress s0" and "clock_ok ls"
    and "s = popen (start_decoding True t0 s0)"
  shows "list_all (\<lambda>sn. t0 + 5 \<le> snap_time sn) (new_snapshots s (process_lines ls s))
       \<and> (list_all (\<lambda>(line, t_check, t_update). t_check < t0 + 10) ls \<longrightarrow>
            length (new_snapshots s (process_lines ls s)) \<le> 1)"
proof (intro conjI impI)
  have l: "last_gui_update_time s = t0"
    using assms(1) by (simp add: assms(3) started_fields)
  have "spaced t0 (map snap_time (new_snapshots s (process_lines ls s)))"
    using lines_new_snapshots(2) [OF assms(2), of s] by (simp only: l)
  then have "list_all (\<lambda>t. t0 + 5 \<le> t) (map snap_time (new_snapshots s (process_lines ls s)))"
    by (rule spaced_lower)
  then show "list_all (\<lambda>sn. t0 + 5 \<le> snap_time sn) (new_snapshots s (process_lines ls s))"
    by (simp add: list_all_iff)
  assume "list_all (\<lambda>(line, t_check, t_update). t_check < t0 + 10) ls"
  then have "list_all (\<lambda>(line, tc, tu). tc < last_gui_update_time s + 10) ls"
    by (simp only: l)
  then have "length (snapshots (process_lines ls s)) \<le> length (snapshots s) + 1"
    using assms(2) by (intro lines_at_most_one)
  then show "length (new_snapshots s (process_lines ls s)) \<le> 1"
    by (simp add: new_snapshots_def)
qed

theorem first_snapshot_after_interval_witness:
  "(let s0 = init_app 0;
        ls = [(''File Frame 10: VHS'', 105, 105), (''File Frame 20: VHS'', 107, 107)];
        s = popen (start_decoding True 100 s0)
    in \<not> decoding_in_progress s0 \<and> clock_ok ls
       \<and> list_all (\<lambda>(line, t_check, t_update). t_check < 100 + 10) ls
       \<and> map snap_time (new_snapshots s (process_lines ls s)) = [105]
       \<and> list_all (\<lambda>sn. 100 + 5 \<le> snap_time sn) (new_snapshots s (process_lines ls s))
       \<and> length (new_snapshots s (process_lines ls s)) \<le> 1)"
proof -
  let ?s = "popen (start_decoding True 100 (init_app 0))"
  let ?ls = "[(''File Frame 10: VHS'', 105::real, 105::real), (''File Frame 20: VHS'', 107, 107)]"
  note ex = throttled_run_example
  have b: "list_all (\<lambda>(line, t_check, t_update). t_check < 100 + 10) ?ls"
    by simp
  have new: "map snap_time (new_snapshots ?s (process_lines ?ls ?s)) = [105]"
    by (simp add: new_snapshots_def ex del: process_lines.simps)
  have th: "list_all (\<lambda>sn. 100 + 5 \<le> snap_time sn) (new_snapshots ?s (process_lines ?ls ?s))
      \<and> length (new_snapshots ?s (process_lines ?ls ?s)) \<le> 1"
    using first_snapshot_after_interval [where ?s0.0 = "init_app 0" and ?t0.0 = 100,
        OF init_idle(1) ex(6) refl] b by blast
  show ?thesis
    using init_idle(1) [of 0] ex(6) b new th by (simp add: Let_def del: process_lines.simps)
qed

end
